theory Spec2Isabelle
  imports Main
begin

section \<open>Strings of the runtime\<close>

text \<open>
  A JavaScript string is a sequence of UTF-16 code units; \<open>length\<close>, \<open>substring\<close>,
  \<open>split\<close> and \<open>includes\<close> all count code units. The model uses \<^typ>\<open>string\<close>, one
  \<^typ>\<open>char\<close> standing for one code unit (only the code units below 256 are
  representable). Numbers that the source uses as counts, indices, delays and HTTP
  status codes are natural numbers.
\<close>

text \<open>\<^verbatim>\<open>String(n)\<close> / \<^verbatim>\<open>`${n}`\<close> for a non-negative integer: its decimal digits.\<close>

function show_nat :: "nat \<Rightarrow> string" where
  "show_nat n =
     (if n < 10 then [''0123456789'' ! n]
      else show_nat (n div 10) @ [''0123456789'' ! (n mod 10)])"
  by pat_completeness auto
termination
  by (relation "measure id") auto

declare show_nat.simps [simp del]

text \<open>
  The characters matched by \<^verbatim>\<open>\s\<close> and removed by \<^verbatim>\<open>trim()\<close>, among the code units
  below 256: tab, line feed, vertical tab, form feed, carriage return, space and the
  no-break space.
\<close>

definition is_space :: "char \<Rightarrow> bool" where
  "is_space c \<longleftrightarrow> c \<in> {CHR 0x09, CHR 0x0A, CHR 0x0B, CHR 0x0C, CHR 0x0D, CHR 0x20, CHR 0xA0}"

text \<open>\<^verbatim>\<open>s.trim()\<close>\<close>

definition trim :: "string \<Rightarrow> string" where
  "trim s = rev (dropWhile is_space (rev (dropWhile is_space s)))"

text \<open>\<^verbatim>\<open>s.startsWith(t)\<close> and \<^verbatim>\<open>s.includes(t)\<close>\<close>

fun startsWith :: "string \<Rightarrow> string \<Rightarrow> bool" where
  "startsWith s [] = True"
| "startsWith [] (d # t) = False"
| "startsWith (c # s) (d # t) = (c = d \<and> startsWith s t)"

fun str_includes :: "string \<Rightarrow> string \<Rightarrow> bool" where
  "str_includes [] t = (t = [])"
| "str_includes (c # s) t = (startsWith (c # s) t \<or> str_includes s t)"

text \<open>\<^verbatim>\<open>s.split(",")\<close>: the pieces between the commas, empty pieces kept.\<close>

fun split_comma_from :: "string \<Rightarrow> string \<Rightarrow> string list" where
  "split_comma_from piece [] = [piece]"
| "split_comma_from piece (c # cs) =
     (if c = CHR '','' then piece # split_comma_from [] cs
      else split_comma_from (piece @ [c]) cs)"

definition split_comma :: "string \<Rightarrow> string list" where
  "split_comma s = split_comma_from [] s"

text \<open>\<^verbatim>\<open>xs.join(sep)\<close>\<close>

fun join :: "string \<Rightarrow> string list \<Rightarrow> string" where
  "join sep [] = []"
| "join sep [x] = x"
| "join sep (x # y # ys) = x @ sep @ join sep (y # ys)"

text \<open>
  \<^verbatim>\<open>text.split(/\s+/)\<close>: the pieces between the maximal runs of whitespace. A run at
  the start or at the end of the text leaves an empty piece there, and the empty text
  splits into the single empty piece.
\<close>

function split_ws :: "string \<Rightarrow> string list" where
  "split_ws s =
     (let piece = takeWhile (\<lambda>c. \<not> is_space c) s;
          rest = dropWhile (\<lambda>c. \<not> is_space c) s
      in if rest = [] then [piece] else piece # split_ws (dropWhile is_space rest))"
  by pat_completeness auto
termination
proof (relation "measure length")
  fix s piece rest
  assume r: "rest = dropWhile (\<lambda>c. \<not> is_space c) s" and ne: "rest \<noteq> []"
  have "length (dropWhile is_space rest) < length rest"
  proof (cases rest)
    case Nil
    with ne show ?thesis by simp
  next
    case (Cons c cs)
    with r have "is_space c"
      by (metis hd_dropWhile list.sel(1) ne)
    with Cons have "length (dropWhile is_space rest) \<le> length cs"
      by (simp add: length_dropWhile_le)
    with Cons show ?thesis by simp
  qed
  also have "length rest \<le> length s"
    using r by (simp add: length_dropWhile_le)
  finally show "(dropWhile is_space rest, s) \<in> measure length" by simp
qed simp

declare split_ws.simps [simp del]

text \<open>
  The count the specification describes for a text: the number of its whitespace-separated
  tokens, that is, of its maximal runs of characters that are not whitespace. The flag
  says whether the character before was part of a token.
\<close>

fun count_tokens :: "bool \<Rightarrow> string \<Rightarrow> nat" where
  "count_tokens inside [] = 0"
| "count_tokens inside (c # cs) =
     (if is_space c then count_tokens False cs
      else (if inside then 0 else 1) + count_tokens True cs)"

definition whitespace_token_count :: "string \<Rightarrow> nat" where
  "whitespace_token_count s = count_tokens False s"

section \<open>Query building (the \<^verbatim>\<open>deep_search\<close> handler)\<close>

text \<open>
  \<^verbatim>\<open>include_domains\<close> and \<^verbatim>\<open>exclude_domains\<close> are optional comma-separated strings. The
  test \<^verbatim>\<open>if (include_domains)\<close> is false for a missing and for an empty string.
\<close>

definition truthy :: "string option \<Rightarrow> bool" where
  "truthy s \<longleftrightarrow> (case s of None \<Rightarrow> False | Some t \<Rightarrow> t \<noteq> [])"

definition searchQuery :: "string \<Rightarrow> string option \<Rightarrow> string option \<Rightarrow> string" where
  "searchQuery query include_domains exclude_domains =
     (let q1 = (if truthy include_domains
                then query @ '' '' @
                     join '' OR '' (map (\<lambda>d. ''site:'' @ d) (map trim (split_comma (the include_domains))))
                else query)
      in if truthy exclude_domains
         then q1 @ '' '' @
              join '' '' (map (\<lambda>d. ''-site:'' @ d) (map trim (split_comma (the exclude_domains))))
         else q1)"

section \<open>Fetching one URL with retries\<close>

text \<open>
  A thrown value is an \<^verbatim>\<open>Error\<close> carrying its message, or something that is not an
  instance of \<^verbatim>\<open>Error\<close>.
\<close>

datatype thrown = Error (message: string) | NonError

text \<open>
  A response carries its status and the result of reading its body with \<^verbatim>\<open>text()\<close>,
  which can fail. \<^verbatim>\<open>response.ok\<close> holds for the statuses 200 to 299.
\<close>

record response =
  status :: nat
  body :: "thrown + string"

definition ok :: "response \<Rightarrow> bool" where
  "ok r \<longleftrightarrow> 200 \<le> status r \<and> status r \<le> 299"

text \<open>
  What one call of \<^verbatim>\<open>fetch\<close> gives: a response, or a rejection (a network failure, or
  the abort of the 15 second \<^verbatim>\<open>AbortSignal.timeout\<close>). The network as one call of
  \<^verbatim>\<open>fetchWithRetry\<close> sees it is a function from the attempt number to the reply.
\<close>

datatype reply = Responded response | Rejected thrown

text \<open>What the caller can observe of the retry loop: the calls of \<^verbatim>\<open>fetch\<close> and the
  \<^verbatim>\<open>setTimeout\<close> delays (in milliseconds), in order.\<close>

datatype event = Attempt nat | Delay nat

text \<open>
  How one pass through the \<^verbatim>\<open>try\<close>/\<^verbatim>\<open>catch\<close> statement ends: it returns the response,
  it throws out of the function, or it completes with \<^verbatim>\<open>lastError\<close> assigned.
\<close>

datatype completion = Returned response | Thrown thrown | Completed thrown

text \<open>The \<^verbatim>\<open>try\<close> block. A throw here is still inside the \<^verbatim>\<open>try\<close>.\<close>

definition try_block :: "reply \<Rightarrow> completion" where
  "try_block rp =
     (case rp of
        Rejected e \<Rightarrow> Thrown e
      | Responded r \<Rightarrow>
          if ok r then Returned r
          else if status r \<ge> 400 \<and> status r < 500 \<and> status r \<noteq> 429
               then Thrown (Error (''HTTP '' @ show_nat (status r)))
          else Completed (Error (''HTTP '' @ show_nat (status r))))"

text \<open>The \<^verbatim>\<open>catch\<close> block, run on whatever the \<^verbatim>\<open>try\<close> block threw.\<close>

definition catch_block :: "thrown \<Rightarrow> completion" where
  "catch_block error =
     (let lastError = (case error of Error m \<Rightarrow> Error m | NonError \<Rightarrow> Error ''Unknown error'')
      in if str_includes (message lastError) ''timeout'' then Thrown lastError
         else Completed lastError)"

definition try_catch :: "reply \<Rightarrow> completion" where
  "try_catch rp = (case try_block rp of Thrown e \<Rightarrow> catch_block e | c \<Rightarrow> c)"

text \<open>The backoff after attempt number \<open>attempt\<close>.\<close>

definition backoff :: "nat \<Rightarrow> nat \<Rightarrow> nat \<Rightarrow> event list" where
  "backoff maxRetries baseDelay attempt =
     (if attempt < maxRetries - 1 then [Delay (baseDelay * 2 ^ attempt)] else [])"

text \<open>
  The \<^verbatim>\<open>for\<close> loop of \<^verbatim>\<open>fetchWithRetry\<close> from \<open>attempt\<close> on, with the current
  \<^verbatim>\<open>lastError\<close>; the result is the response or the thrown value, and the events.
\<close>

function fetchWithRetry_loop ::
  "(nat \<Rightarrow> reply) \<Rightarrow> nat \<Rightarrow> nat \<Rightarrow> nat \<Rightarrow> thrown option \<Rightarrow> (thrown + response) \<times> event list" where
  "fetchWithRetry_loop fetch maxRetries baseDelay attempt lastError =
     (if attempt < maxRetries then
        (case try_catch (fetch attempt) of
           Returned r \<Rightarrow> (Inr r, [Attempt attempt])
         | Thrown e \<Rightarrow> (Inl e, [Attempt attempt])
         | Completed e \<Rightarrow>
             (let (res, evs) = fetchWithRetry_loop fetch maxRetries baseDelay (attempt + 1) (Some e)
              in (res, Attempt attempt # backoff maxRetries baseDelay attempt @ evs)))
      else
        (case lastError of
           Some e \<Rightarrow> (Inl e, [])
         | None \<Rightarrow> (Inl (Error ''Max retries exceeded''), [])))"
  by pat_completeness auto
termination
  by (relation "measure (\<lambda>(fetch, maxRetries, baseDelay, attempt, lastError). maxRetries - attempt)") auto

declare fetchWithRetry_loop.simps [simp del]

definition fetchWithRetry :: "(nat \<Rightarrow> reply) \<Rightarrow> nat \<Rightarrow> nat \<Rightarrow> (thrown + response) \<times> event list" where
  "fetchWithRetry fetch maxRetries baseDelay = fetchWithRetry_loop fetch maxRetries baseDelay 0 None"

text \<open>The calls of \<^verbatim>\<open>fetch\<close> and the delays among the events.\<close>

fun attempts_of :: "event list \<Rightarrow> nat list" where
  "attempts_of [] = []"
| "attempts_of (Attempt k # evs) = k # attempts_of evs"
| "attempts_of (Delay d # evs) = attempts_of evs"

fun delays_of :: "event list \<Rightarrow> nat list" where
  "delays_of [] = []"
| "delays_of (Attempt k # evs) = delays_of evs"
| "delays_of (Delay d # evs) = d # delays_of evs"

section \<open>Fetching and extracting one page\<close>

record SearchResult =
  title :: string
  link :: string
  snippet :: string
  position :: nat
  date :: "string option"

record FetchedContent =
  url :: string
  title :: string
  content :: string
  success :: bool
  error :: "string option"
  wordCount :: "nat option"

text \<open>
  The page title and the article text are computed by the libraries cheerio, jsdom and
  Readability from the HTML (and the URL). They are parameters here, and each may throw.
\<close>

record extractors =
  page_title :: "string \<Rightarrow> thrown + string"
  extractContentWithReadability :: "string \<Rightarrow> string \<Rightarrow> thrown + string"

definition truncation_marker :: string where
  "truncation_marker = ''\<newline>\<newline>[Content truncated...]''"

text \<open>The \<^verbatim>\<open>try\<close> block of \<^verbatim>\<open>fetchUrl\<close>; \<open>Inl\<close> is a throw inside it.\<close>

definition fetchUrl_try :: "extractors \<Rightarrow> (nat \<Rightarrow> reply) \<Rightarrow> string \<Rightarrow> nat \<Rightarrow> thrown + FetchedContent" where
  "fetchUrl_try ext fetch u maxLength =
     (case fst (fetchWithRetry fetch 3 1000) of
        Inl e \<Rightarrow> Inl e
      | Inr response \<Rightarrow>
          (case body response of
             Inl e \<Rightarrow> Inl e
           | Inr html \<Rightarrow>
               (case page_title ext html of
                  Inl e \<Rightarrow> Inl e
                | Inr t \<Rightarrow>
                    (case extractContentWithReadability ext html u of
                       Inl e \<Rightarrow> Inl e
                     | Inr text \<Rightarrow>
                         (let wc = length (split_ws text);
                              text' = (if length text > maxLength
                                       then take maxLength text @ truncation_marker
                                       else text)
                          in Inr \<lparr>url = u, title = t, content = text', success = True,
                                  error = None, wordCount = Some wc\<rparr>)))))"

text \<open>\<^verbatim>\<open>fetchUrl\<close>: the \<^verbatim>\<open>catch\<close> block turns every throw into a failure record.\<close>

definition fetchUrl :: "extractors \<Rightarrow> (nat \<Rightarrow> reply) \<Rightarrow> string \<Rightarrow> nat \<Rightarrow> FetchedContent" where
  "fetchUrl ext fetch u maxLength =
     (case fetchUrl_try ext fetch u maxLength of
        Inr fetched \<Rightarrow> fetched
      | Inl e \<Rightarrow>
          (let errorMsg = (case e of Error m \<Rightarrow> m | NonError \<Rightarrow> ''Unknown error'')
           in \<lparr>url = u, title = [], content = [], success = False,
               error = Some errorMsg, wordCount = None\<rparr>))"

section \<open>Fetching all URLs in windows\<close>

text \<open>
  \<^verbatim>\<open>new Array(n)\<close> has \<open>n\<close> empty slots: a slot is \<open>None\<close> until it is assigned.
  An assignment beyond the end extends the array.
\<close>

definition array_set :: "'a option list \<Rightarrow> nat \<Rightarrow> 'a \<Rightarrow> 'a option list" where
  "array_set xs g v =
     (if g < length xs then xs[g := Some v]
      else xs @ replicate (g - length xs) None @ [Some v])"

text \<open>\<^verbatim>\<open>xs.slice(a, b)\<close> for \<open>a \<le> b\<close>\<close>

definition slice :: "'a list \<Rightarrow> nat \<Rightarrow> nat \<Rightarrow> 'a list" where
  "slice xs a b = take (b - a) (drop a xs)"

text \<open>What \<^verbatim>\<open>Promise.allSettled\<close> reports for one promise.\<close>

datatype settled = Fulfilled FetchedContent | RejectedPromise

text \<open>
  The network as \<^verbatim>\<open>fetchAllUrls\<close> sees it: \<open>net g\<close> gives the replies to the attempts
  of the call of \<^verbatim>\<open>fetchUrl\<close> for the URL at index \<open>g\<close>. \<^verbatim>\<open>fetchUrl\<close> catches every
  throw, so its promise is always fulfilled.
\<close>

definition allSettled_batch :: "extractors \<Rightarrow> (nat \<Rightarrow> nat \<Rightarrow> reply) \<Rightarrow> nat \<Rightarrow> string list \<Rightarrow> settled list" where
  "allSettled_batch ext net i batch =
     map (\<lambda>(idx, u). Fulfilled (fetchUrl ext (net (i + idx)) u 100000)) (enumerate 0 batch)"

text \<open>
  The record stored for a settled promise at index \<open>globalIdx\<close>: its value when it was
  fulfilled, a failure record with the URL of that index when it was rejected.
\<close>

definition settled_value :: "string list \<Rightarrow> nat \<Rightarrow> settled \<Rightarrow> FetchedContent" where
  "settled_value urls globalIdx result =
     (case result of
        Fulfilled v \<Rightarrow> v
      | RejectedPromise \<Rightarrow>
          \<lparr>url = urls ! globalIdx, title = [], content = [], success = False,
           error = Some ''Promise rejected'', wordCount = None\<rparr>)"

text \<open>The \<^verbatim>\<open>forEach\<close> over the settled promises of a window, from position \<open>idx\<close> on.\<close>

fun forEach_place ::
  "string list \<Rightarrow> nat \<Rightarrow> nat \<Rightarrow> settled list \<Rightarrow> FetchedContent option list \<Rightarrow> FetchedContent option list" where
  "forEach_place urls i idx [] results = results"
| "forEach_place urls i idx (result # rest) results =
     (let globalIdx = i + idx
      in forEach_place urls i (idx + 1) rest
           (array_set results globalIdx (settled_value urls globalIdx result)))"

definition process_window ::
  "extractors \<Rightarrow> (nat \<Rightarrow> nat \<Rightarrow> reply) \<Rightarrow> string list \<Rightarrow> nat \<Rightarrow> nat \<Rightarrow> FetchedContent option list \<Rightarrow> FetchedContent option list" where
  "process_window ext net urls concurrency i results =
     (let batch = slice urls i (i + concurrency);
          batchResults = allSettled_batch ext net i batch
      in forEach_place urls i 0 batchResults results)"

text \<open>
  The \<^verbatim>\<open>for\<close> loop of \<^verbatim>\<open>fetchAllUrls\<close>. With \<open>concurrency = 0\<close> the index never
  advances and the loop does not end; not returning is the value \<open>None\<close>.
\<close>

partial_function (option) fetchAllUrls_loop ::
  "extractors \<Rightarrow> (nat \<Rightarrow> nat \<Rightarrow> reply) \<Rightarrow> string list \<Rightarrow> nat \<Rightarrow> nat \<Rightarrow> FetchedContent option list \<Rightarrow> FetchedContent option list option" where
  "fetchAllUrls_loop ext net urls concurrency i results =
     (if i < length urls
      then fetchAllUrls_loop ext net urls concurrency (i + concurrency)
             (process_window ext net urls concurrency i results)
      else Some results)"

definition fetchAllUrls ::
  "extractors \<Rightarrow> (nat \<Rightarrow> nat \<Rightarrow> reply) \<Rightarrow> string list \<Rightarrow> nat \<Rightarrow> FetchedContent option list option" where
  "fetchAllUrls ext net urls concurrency =
     fetchAllUrls_loop ext net urls concurrency 0 (replicate (length urls) None)"

section \<open>Assembling the report\<close>

datatype SearchType = Web | News | Images

fun searchType_text :: "SearchType \<Rightarrow> string" where
  "searchType_text Web = ''web''"
| "searchType_text News = ''news''"
| "searchType_text Images = ''images''"

text \<open>
  \<^verbatim>\<open>fetchedContents[i]\<close>: \<^verbatim>\<open>undefined\<close> (here \<open>None\<close>) for an empty slot and beyond the
  end of the array.
\<close>

definition array_get :: "'a option list \<Rightarrow> nat \<Rightarrow> 'a option" where
  "array_get xs i = (if i < length xs then xs ! i else None)"

text \<open>
  \<^verbatim>\<open>filter\<close> and \<^verbatim>\<open>reduce\<close> skip the empty slots of an array.
  \<^verbatim>\<open>c.wordCount || 0\<close> is 0 for a missing word count.
\<close>

definition successCount :: "FetchedContent option list \<Rightarrow> nat" where
  "successCount fetchedContents =
     length (filter (\<lambda>c. case c of None \<Rightarrow> False | Some fetched \<Rightarrow> success fetched) fetchedContents)"

definition totalWords :: "FetchedContent option list \<Rightarrow> nat" where
  "totalWords fetchedContents =
     foldl (\<lambda>sum c. case c of
                       None \<Rightarrow> sum
                     | Some fetched \<Rightarrow> sum + (case wordCount fetched of None \<Rightarrow> 0 | Some w \<Rightarrow> w))
           0 fetchedContents"

text \<open>
  The lines written before the loop. \<^verbatim>\<open>toLocaleString\<close> depends on the locale of the
  runtime and is a parameter.
\<close>

definition report_header ::
  "(nat \<Rightarrow> string) \<Rightarrow> string \<Rightarrow> SearchResult list \<Rightarrow> FetchedContent option list \<Rightarrow> SearchType \<Rightarrow> string" where
  "report_header toLocaleString query searchResults fetchedContents searchType =
     ''# Deep Search Results for: '' @ [CHR 0x22] @ query @ [CHR 0x22] @ ''\<newline>\<newline>''
     @ ''**Search Type:** '' @ searchType_text searchType @ ''\<newline>''
     @ ''**Results:** '' @ show_nat (length searchResults) @ '' found, ''
       @ show_nat (successCount fetchedContents) @ '' pages fetched successfully\<newline>''
     @ ''**Total Content:** ~'' @ toLocaleString (totalWords fetchedContents) @ '' words\<newline>\<newline>''
     @ ''---\<newline>\<newline>''"

text \<open>The content as the report shows it.\<close>

definition shown_content :: "string \<Rightarrow> nat \<Rightarrow> string" where
  "shown_content c maxContentPerPage =
     (if length c > maxContentPerPage
      then take maxContentPerPage c @ ''\<newline>\<newline>[Content truncated...]''
      else c)"

text \<open>
  What one pass of the loop appends for result number \<open>i\<close> (counted from 0): the lines
  with the number, the title, the URL and the date; then the page content, or the
  failure notice with the search snippet, or nothing; then the separator.
\<close>

definition section_head :: "nat \<Rightarrow> SearchResult \<Rightarrow> string" where
  "section_head i search =
     ''## '' @ show_nat (i + 1) @ ''. '' @ SearchResult.title search @ ''\<newline>''
     @ ''**URL:** '' @ link search @ ''\<newline>''
     @ (if truthy (date search) then ''**Date:** '' @ the (date search) @ ''\<newline>'' else [])
     @ ''\<newline>''"

definition section_body :: "SearchResult \<Rightarrow> FetchedContent option \<Rightarrow> nat \<Rightarrow> string" where
  "section_body search fetched maxContentPerPage =
     (case fetched of
        None \<Rightarrow> []
      | Some f \<Rightarrow>
          if success f \<and> content f \<noteq> []
          then ''### Full Page Content:\<newline>\<newline>''
               @ shown_content (content f) maxContentPerPage @ ''\<newline>\<newline>''
          else if truthy (error f)
          then ''*Could not fetch content: '' @ the (error f) @ ''*\<newline>\<newline>''
               @ ''**Search Snippet:** '' @ snippet search @ ''\<newline>\<newline>''
          else [])"

definition result_section :: "nat \<Rightarrow> SearchResult \<Rightarrow> FetchedContent option \<Rightarrow> nat \<Rightarrow> string" where
  "result_section i search fetched maxContentPerPage =
     section_head i search @ section_body search fetched maxContentPerPage
     @ ''---\<newline>\<newline>''"

function formatResponse_loop ::
  "SearchResult list \<Rightarrow> FetchedContent option list \<Rightarrow> nat \<Rightarrow> nat \<Rightarrow> string \<Rightarrow> string" where
  "formatResponse_loop searchResults fetchedContents maxContentPerPage i response =
     (if i < length searchResults
      then formatResponse_loop searchResults fetchedContents maxContentPerPage (i + 1)
             (response @ result_section i (searchResults ! i) (array_get fetchedContents i)
                           maxContentPerPage)
      else response)"
  by pat_completeness auto
termination
  by (relation "measure (\<lambda>(searchResults, fetchedContents, maxContentPerPage, i, response).
                            length searchResults - i)") auto

declare formatResponse_loop.simps [simp del]

definition formatResponse ::
  "(nat \<Rightarrow> string) \<Rightarrow> string \<Rightarrow> SearchResult list \<Rightarrow> FetchedContent option list \<Rightarrow> nat \<Rightarrow> SearchType \<Rightarrow> string" where
  "formatResponse toLocaleString query searchResults fetchedContents maxContentPerPage searchType =
     formatResponse_loop searchResults fetchedContents maxContentPerPage 0
       (report_header toLocaleString query searchResults fetchedContents searchType)"

section \<open>Example inputs\<close>

text \<open>
  Extractors that give a fixed title and take the whole body as the article text; a
  server that always answers 404, one that serves a four-word page, and a network in
  which the URL at index 0 is missing and every other URL is that page.
\<close>

definition example_extractors :: extractors where
  "example_extractors = \<lparr>page_title = (\<lambda>html. Inr ''Title''),
                          extractContentWithReadability = (\<lambda>html u. Inr html)\<rparr>"

definition example_missing :: "nat \<Rightarrow> reply" where
  "example_missing k = Responded \<lparr>status = 404, body = Inr []\<rparr>"

definition example_page :: "nat \<Rightarrow> reply" where
  "example_page k = Responded \<lparr>status = 200, body = Inr ''one two three four''\<rparr>"

definition example_net :: "nat \<Rightarrow> nat \<Rightarrow> reply" where
  "example_net g = (if g = 0 then example_missing else example_page)"

text \<open>
  A search result; outcomes for it: the failure record of a missing page and a
  successful one with content longer than four characters; a server that serves an
  empty page.
\<close>

definition example_result :: SearchResult where
  "example_result = \<lparr>SearchResult.title = ''Cats'', link = ''http://a'', snippet = ''About cats'',
                      position = 1, date = None\<rparr>"

definition example_failed :: FetchedContent where
  "example_failed =
     \<lparr>url = ''http://a'', title = [], content = [], success = False, error = Some ''HTTP 404'',
      wordCount = None\<rparr>"

definition example_long_page :: FetchedContent where
  "example_long_page =
     \<lparr>url = ''http://a'', title = ''Cats'', content = ''abcdefghij'', success = True, error = None,
      wordCount = Some 1\<rparr>"

definition example_empty_page :: "nat \<Rightarrow> reply" where
  "example_empty_page k = Responded \<lparr>status = 200, body = Inr []\<rparr>"

section \<open>Properties of the query builder\<close>

text \<open>
  Claim C9. The query \<open>cats\<close> with include domains \<open>a.com\<close>, \<open>b.com\<close> and exclude domain
  \<open>c.com\<close> becomes exactly \<open>cats site:a.com OR site:b.com -site:c.com\<close>, also when the
  domains are written with surrounding whitespace; in general the include domains,
  trimmed, are appended as \<open>site:\<close> clauses joined by \<open>OR\<close>, followed by the exclude
  domains, trimmed, as \<open>-site:\<close> clauses joined by spaces.
\<close>

theorem searchQuery_domain_filters:
  "searchQuery ''cats'' (Some ''a.com,b.com'') (Some ''c.com'') =
     ''cats site:a.com OR site:b.com -site:c.com''
   \<and> searchQuery ''cats'' (Some '' a.com , b.com'') (Some ''c.com '') =
     ''cats site:a.com OR site:b.com -site:c.com''
   \<and> (\<forall>query inc exc. inc \<noteq> [] \<and> exc \<noteq> [] \<longrightarrow>
        searchQuery query (Some inc) (Some exc) =
          query @ '' '' @ join '' OR '' (map (\<lambda>d. ''site:'' @ trim d) (split_comma inc))
                @ '' '' @ join '' '' (map (\<lambda>d. ''-site:'' @ trim d) (split_comma exc)))"
proof (intro conjI allI impI)
  show "searchQuery ''cats'' (Some ''a.com,b.com'') (Some ''c.com'') =
     ''cats site:a.com OR site:b.com -site:c.com''"
    by (simp add: searchQuery_def truthy_def split_comma_def trim_def is_space_def)
  show "searchQuery ''cats'' (Some '' a.com , b.com'') (Some ''c.com '') =
     ''cats site:a.com OR site:b.com -site:c.com''"
    by (simp add: searchQuery_def truthy_def split_comma_def trim_def is_space_def)
next
  fix query inc exc :: string
  assume "inc \<noteq> [] \<and> exc \<noteq> []"
  then show "searchQuery query (Some inc) (Some exc) =
          query @ '' '' @ join '' OR '' (map (\<lambda>d. ''site:'' @ trim d) (split_comma inc))
                @ '' '' @ join '' '' (map (\<lambda>d. ''-site:'' @ trim d) (split_comma exc))"
    by (simp add: searchQuery_def truthy_def comp_def)
qed

theorem searchQuery_domain_filters_witness:
  "''x.org, y.org'' \<noteq> [] \<and> ''z.org'' \<noteq> []
   \<and> searchQuery ''dogs'' (Some ''x.org, y.org'') (Some ''z.org'') =
       ''dogs site:x.org OR site:y.org -site:z.org''"
proof -
  have h: "''x.org, y.org'' \<noteq> [] \<and> ''z.org'' \<noteq> []"
    by simp
  have "searchQuery ''dogs'' (Some ''x.org, y.org'') (Some ''z.org'') =
          ''dogs'' @ '' '' @ join '' OR '' (map (\<lambda>d. ''site:'' @ trim d) (split_comma ''x.org, y.org''))
                @ '' '' @ join '' '' (map (\<lambda>d. ''-site:'' @ trim d) (split_comma ''z.org''))"
    using searchQuery_domain_filters h by blast
  then show ?thesis
    by (simp add: split_comma_def trim_def is_space_def)
qed

section \<open>Properties of the retry loop\<close>

text \<open>
  When every attempt completes the \<^verbatim>\<open>try\<close>/\<^verbatim>\<open>catch\<close> statement with an error recorded,
  the loop makes every attempt, waits after each but the last, and throws the error of
  the last attempt.
\<close>

lemma fetchWithRetry_loop_all_completed:
  assumes "\<forall>k < maxRetries. try_catch (fetch k) = Completed (err k)"
  shows "fetchWithRetry_loop fetch maxRetries baseDelay attempt lastError =
           (Inl (if attempt < maxRetries then err (maxRetries - 1)
                 else (case lastError of Some e \<Rightarrow> e | None \<Rightarrow> Error ''Max retries exceeded'')),
            concat (map (\<lambda>k. Attempt k # backoff maxRetries baseDelay k) [attempt..<maxRetries]))"
  using assms
proof (induction "maxRetries - attempt" arbitrary: attempt lastError)
  case 0
  then have "\<not> attempt < maxRetries" by simp
  then show ?case
    by (simp add: fetchWithRetry_loop.simps [of fetch maxRetries baseDelay attempt]
          split: option.splits)
next
  case (Suc d)
  then have lt: "attempt < maxRetries" and d: "d = maxRetries - (attempt + 1)" by simp_all
  have tc: "try_catch (fetch attempt) = Completed (err attempt)"
    using Suc.prems lt by simp
  have ih: "fetchWithRetry_loop fetch maxRetries baseDelay (attempt + 1) (Some (err attempt)) =
           (Inl (if attempt + 1 < maxRetries then err (maxRetries - 1)
                 else err attempt),
            concat (map (\<lambda>k. Attempt k # backoff maxRetries baseDelay k) [attempt + 1..<maxRetries]))"
    using Suc.hyps(1) [OF d Suc.prems] by simp
  have last: "\<not> attempt + 1 < maxRetries \<Longrightarrow> err attempt = err (maxRetries - 1)"
  proof -
    assume "\<not> attempt + 1 < maxRetries"
    with lt have "attempt = maxRetries - 1" by arith
    then show ?thesis by simp
  qed
  have upt: "[attempt..<maxRetries] = attempt # [attempt + 1..<maxRetries]"
    using lt by (simp add: upt_conv_Cons)
  show ?case
    using lt last
    using ih
    by (simp add: fetchWithRetry_loop.simps [of fetch maxRetries baseDelay attempt] tc upt)
qed

lemma attempts_of_append: "attempts_of (xs @ ys) = attempts_of xs @ attempts_of ys"
  by (induction xs rule: attempts_of.induct) simp_all

lemma delays_of_append: "delays_of (xs @ ys) = delays_of xs @ delays_of ys"
  by (induction xs rule: delays_of.induct) simp_all

lemma attempts_of_schedule:
  "attempts_of (concat (map (\<lambda>k. Attempt k # backoff m b k) ks)) = ks"
  by (induction ks) (simp_all add: attempts_of_append backoff_def)

lemma delays_of_schedule:
  "delays_of (concat (map (\<lambda>k. Attempt k # backoff m b k) ks)) =
     map (\<lambda>k. b * 2 ^ k) (filter (\<lambda>k. k < m - 1) ks)"
  by (induction ks) (simp_all add: delays_of_append backoff_def)

lemma filter_upt_pred: "filter (\<lambda>k. k < m - 1) [0..<m] = [0..<m - 1]"
proof -
  have "[0..<m] = [0..<m - 1] @ [m - 1..<m]"
    by (metis diff_le_self le0 upt_add_eq_append le_add_diff_inverse)
  then have "filter (\<lambda>k. k < m - 1) [0..<m] =
      filter (\<lambda>k. k < m - 1) [0..<m - 1] @ filter (\<lambda>k. k < m - 1) [m - 1..<m]"
    by (metis filter_append)
  moreover have "filter (\<lambda>k. k < m - 1) [0..<m - 1] = [0..<m - 1]"
    by (rule filter_True) simp
  moreover have "filter (\<lambda>k. k < m - 1) [m - 1..<m] = []"
    by (rule filter_False) simp
  ultimately show ?thesis by simp
qed

lemma show_nat_503: "show_nat 503 = ''503''"
  by (simp add: show_nat.simps)

lemma try_catch_503:
  "status r = 503 \<Longrightarrow> try_catch (Responded r) = Completed (Error ''HTTP 503'')"
  by (simp add: try_catch_def try_block_def ok_def show_nat_503)

text \<open>
  The message \<open>HTTP\<close> followed by a status never contains \<open>timeout\<close>, so the \<^verbatim>\<open>catch\<close>
  block lets the loop continue after the \<^verbatim>\<open>throw\<close> for a client error: a status from 400
  to 499 is retried exactly like a status from 500 on.
\<close>

lemma set_show_nat: "set (show_nat n) \<subseteq> set ''0123456789''"
proof (induction n rule: show_nat.induct)
  case (1 n)
  have d: "\<And>k. k < 10 \<Longrightarrow> ''0123456789'' ! k \<in> set ''0123456789''"
    by (rule nth_mem) simp
  show ?case
  proof (cases "n < 10")
    case True
    then show ?thesis
      using d [of n] by (subst show_nat.simps) simp
  next
    case False
    have "n mod 10 < 10" by simp
    then show ?thesis
      using False 1 d [of "n mod 10"] by (subst show_nat.simps) simp
  qed
qed

lemma startsWith_set: "startsWith s t \<Longrightarrow> set t \<subseteq> set s"
  by (induction s t rule: startsWith.induct) auto

lemma str_includes_set: "str_includes s t \<Longrightarrow> set t \<subseteq> set s"
proof (induction s)
  case Nil
  then show ?case by simp
next
  case (Cons c s)
  then show ?case
    using startsWith_set [of "c # s" t] by auto
qed

lemma http_message_no_timeout: "\<not> str_includes (''HTTP '' @ show_nat n) ''timeout''"
proof
  assume "str_includes (''HTTP '' @ show_nat n) ''timeout''"
  then have "set ''timeout'' \<subseteq> set (''HTTP '' @ show_nat n)"
    by (rule str_includes_set)
  then have "CHR ''m'' \<in> set ''HTTP '' \<union> set (show_nat n)" by auto
  then have "CHR ''m'' \<in> set ''0123456789''"
    using set_show_nat [of n] by auto
  then show False by simp
qed

lemma client_error_is_retried:
  assumes "400 \<le> status r" and "status r < 500"
  shows "try_catch (Responded r) = Completed (Error (''HTTP '' @ show_nat (status r)))"
  using assms http_message_no_timeout [of "status r"]
  by (simp add: try_catch_def try_block_def catch_block_def ok_def)

lemma fetchWithRetry_client_error_exhausts_retries:
  assumes "\<forall>k. \<exists>r. fetch k = Responded r \<and> status r = s" and "400 \<le> s" and "s < 500"
    and "0 < maxRetries"
  shows "fetchWithRetry fetch maxRetries baseDelay =
           (Inl (Error (''HTTP '' @ show_nat s)),
            concat (map (\<lambda>k. Attempt k # backoff maxRetries baseDelay k) [0..<maxRetries]))"
proof -
  have "\<forall>k < maxRetries. try_catch (fetch k) = Completed (Error (''HTTP '' @ show_nat s))"
    using assms(1-3) client_error_is_retried by metis
  then show ?thesis
    unfolding fetchWithRetry_def
    using fetchWithRetry_loop_all_completed
            [of maxRetries fetch "\<lambda>k. Error (''HTTP '' @ show_nat s)" baseDelay 0 None]
      assms(4) by simp
qed

text \<open>
  Claim C3. When every attempt is answered with status 503, \<^verbatim>\<open>fetchWithRetry\<close> makes
  exactly \<open>maxRetries\<close> attempts (numbers \<open>0\<close> to \<open>maxRetries - 1\<close>), waits
  \<open>baseDelay * 2 ^ k\<close> after attempt \<open>k\<close> for every attempt but the last, and throws the
  error of the last status seen, \<open>HTTP 503\<close>.
\<close>

theorem fetchWithRetry_503_exhausts_retries:
  assumes "\<forall>k. \<exists>r. fetch k = Responded r \<and> status r = 503" and "0 < maxRetries"
  shows "fst (fetchWithRetry fetch maxRetries baseDelay) = Inl (Error ''HTTP 503'')
       \<and> snd (fetchWithRetry fetch maxRetries baseDelay) =
           concat (map (\<lambda>k. Attempt k # (if k < maxRetries - 1 then [Delay (baseDelay * 2 ^ k)] else []))
                       [0..<maxRetries])
       \<and> attempts_of (snd (fetchWithRetry fetch maxRetries baseDelay)) = [0..<maxRetries]
       \<and> delays_of (snd (fetchWithRetry fetch maxRetries baseDelay)) =
           map (\<lambda>k. baseDelay * 2 ^ k) [0..<maxRetries - 1]"
proof -
  have "\<forall>k < maxRetries. try_catch (fetch k) = Completed (Error ''HTTP 503'')"
    using assms(1) try_catch_503 by metis
  then have eq: "fetchWithRetry fetch maxRetries baseDelay =
      (Inl (Error ''HTTP 503''),
       concat (map (\<lambda>k. Attempt k # backoff maxRetries baseDelay k) [0..<maxRetries]))"
    unfolding fetchWithRetry_def
    using fetchWithRetry_loop_all_completed [of maxRetries fetch "\<lambda>k. Error ''HTTP 503''" baseDelay 0 None]
      assms(2) by simp
  have a: "attempts_of (concat (map (\<lambda>k. Attempt k # backoff maxRetries baseDelay k) [0..<maxRetries]))
      = [0..<maxRetries]"
    by (rule attempts_of_schedule)
  have d: "delays_of (concat (map (\<lambda>k. Attempt k # backoff maxRetries baseDelay k) [0..<maxRetries]))
      = map (\<lambda>k. baseDelay * 2 ^ k) [0..<maxRetries - 1]"
    unfolding delays_of_schedule filter_upt_pred by (rule refl)
  show ?thesis
    unfolding eq fst_conv snd_conv a d
    unfolding backoff_def by simp
qed

theorem fetchWithRetry_503_exhausts_retries_witness:
  "fetchWithRetry (\<lambda>k. Responded \<lparr>status = 503, body = Inr ''''\<rparr>) 3 1000 =
     (Inl (Error ''HTTP 503''), [Attempt 0, Delay 1000, Attempt 1, Delay 2000, Attempt 2])
   \<and> attempts_of (snd (fetchWithRetry (\<lambda>k. Responded \<lparr>status = 503, body = Inr ''''\<rparr>) 3 1000)) = [0, 1, 2]
   \<and> delays_of (snd (fetchWithRetry (\<lambda>k. Responded \<lparr>status = 503, body = Inr ''''\<rparr>) 3 1000)) = [1000, 2000]"
proof -
  have h: "\<forall>k. \<exists>r. (\<lambda>k. Responded \<lparr>status = 503, body = Inr ''''\<rparr>) k = Responded r \<and> status r = 503"
    by simp
  have u3: "[0..<3] = [0, 1, 2::nat]" by (simp add: upt_rec)
  have u2: "[0..<2] = [0, 1::nat]" by (simp add: upt_rec)
  show ?thesis
    using fetchWithRetry_503_exhausts_retries [OF h, of 3 1000]
    by (simp add: u3 u2 prod_eq_iff)
qed

text \<open>
  Claim C2. The claim is that a status 404 ends \<^verbatim>\<open>fetchWithRetry\<close> after one attempt,
  without delay. The \<^verbatim>\<open>throw\<close> for a client error is inside the \<^verbatim>\<open>try\<close> block, so the
  \<^verbatim>\<open>catch\<close> block of the same statement catches it, finds no \<open>timeout\<close> in the message
  and lets the loop go on: with the defaults, a URL that always answers 404 is fetched
  three times, with delays of 1000 and 2000 milliseconds, before the error is thrown.
\<close>

theorem fetchWithRetry_404_is_retried:
  "fetchWithRetry (\<lambda>k. Responded \<lparr>status = 404, body = Inr ''''\<rparr>) 3 1000 =
     (Inl (Error ''HTTP 404''), [Attempt 0, Delay 1000, Attempt 1, Delay 2000, Attempt 2])"
  by code_simp

text \<open>
  Claim C4. When the first attempt is rejected with an error whose message contains
  \<open>timeout\<close> (as the abort of \<^verbatim>\<open>AbortSignal.timeout\<close> is), \<^verbatim>\<open>fetchWithRetry\<close> throws that
  error after this one attempt: no further attempt, no delay.
\<close>

theorem fetchWithRetry_timeout_is_terminal:
  assumes "fetch 0 = Rejected (Error m)" and "str_includes m ''timeout''" and "0 < maxRetries"
  shows "fetchWithRetry fetch maxRetries baseDelay = (Inl (Error m), [Attempt 0])"
  using assms
  by (simp add: fetchWithRetry_def fetchWithRetry_loop.simps [of fetch maxRetries baseDelay 0]
        try_catch_def try_block_def catch_block_def)

theorem fetchWithRetry_timeout_is_terminal_witness:
  "str_includes ''The operation was aborted due to timeout'' ''timeout''
   \<and> fetchWithRetry (\<lambda>k. Rejected (Error ''The operation was aborted due to timeout'')) 3 1000 =
       (Inl (Error ''The operation was aborted due to timeout''), [Attempt 0])"
proof -
  have h: "str_includes ''The operation was aborted due to timeout'' ''timeout''"
    by simp
  show ?thesis
    using h fetchWithRetry_timeout_is_terminal
              [of "\<lambda>k. Rejected (Error ''The operation was aborted due to timeout'')"
                  "''The operation was aborted due to timeout''" 3 1000]
    by simp
qed

section \<open>Properties of fetching\<close>

lemma length_array_set: "g < length xs \<Longrightarrow> length (array_set xs g v) = length xs"
  by (simp add: array_set_def)

lemma nth_array_set:
  "g < length xs \<Longrightarrow> h < length xs \<Longrightarrow> array_set xs g v ! h = (if h = g then Some v else xs ! h)"
  by (simp add: array_set_def nth_list_update)

lemma forEach_place_nth:
  "i + idx + length rs \<le> length results \<Longrightarrow>
   length (forEach_place urls i idx rs results) = length results \<and>
   (\<forall>h < length results. forEach_place urls i idx rs results ! h =
      (if i + idx \<le> h \<and> h < i + idx + length rs
       then Some (settled_value urls h (rs ! (h - (i + idx))))
       else results ! h))"
proof (induction rs arbitrary: idx results)
  case Nil
  then show ?case by auto
next
  case (Cons r rs)
  let ?v = "settled_value urls (i + idx) r"
  let ?res = "array_set results (i + idx) ?v"
  have g: "i + idx < length results" using Cons.prems by simp
  have len: "length ?res = length results" using g by (rule length_array_set)
  have step: "forEach_place urls i idx (r # rs) results = forEach_place urls i (idx + 1) rs ?res"
    by (simp add: Let_def)
  have ih: "length (forEach_place urls i (idx + 1) rs ?res) = length ?res \<and>
   (\<forall>h < length ?res. forEach_place urls i (idx + 1) rs ?res ! h =
      (if i + (idx + 1) \<le> h \<and> h < i + (idx + 1) + length rs
       then Some (settled_value urls h (rs ! (h - (i + (idx + 1)))))
       else ?res ! h))"
    using Cons.prems len by (intro Cons.IH) simp
  show ?case
  proof (intro conjI allI impI)
    show "length (forEach_place urls i idx (r # rs) results) = length results"
      using ih len step by simp
  next
    fix h assume h: "h < length results"
    have "forEach_place urls i idx (r # rs) results ! h =
      (if i + (idx + 1) \<le> h \<and> h < i + (idx + 1) + length rs
       then Some (settled_value urls h (rs ! (h - (i + (idx + 1)))))
       else ?res ! h)"
      using ih h len step by simp
    also have "\<dots> = (if i + idx \<le> h \<and> h < i + idx + length (r # rs)
       then Some (settled_value urls h ((r # rs) ! (h - (i + idx))))
       else results ! h)"
    proof (cases "h = i + idx")
      case True
      then show ?thesis using g by (simp add: nth_array_set)
    next
      case False
      have "i + (idx + 1) \<le> h \<Longrightarrow> (r # rs) ! (h - (i + idx)) = rs ! (h - (i + (idx + 1)))"
        by (simp add: nth_Cons')
      with False show ?thesis using g h by (auto simp add: nth_array_set)
    qed
    finally show "forEach_place urls i idx (r # rs) results ! h =
      (if i + idx \<le> h \<and> h < i + idx + length (r # rs)
       then Some (settled_value urls h ((r # rs) ! (h - (i + idx))))
       else results ! h)" .
  qed
qed

lemma length_slice: "length (slice xs a b) = min (b - a) (length xs - a)"
  by (simp add: slice_def)

lemma nth_slice: "k < length (slice xs a b) \<Longrightarrow> slice xs a b ! k = xs ! (a + k)"
proof -
  assume "k < length (slice xs a b)"
  then have "k < b - a \<and> k < length xs - a" by (simp add: slice_def)
  then have "k < b - a" and "a \<le> length xs" by arith+
  then show ?thesis by (simp add: slice_def)
qed

lemma allSettled_batch_nth:
  "k < length batch \<Longrightarrow>
   allSettled_batch ext net i batch ! k = Fulfilled (fetchUrl ext (net (i + k)) (batch ! k) 100000)"
  by (simp add: allSettled_batch_def nth_enumerate_eq)

lemma length_allSettled_batch: "length (allSettled_batch ext net i batch) = length batch"
  by (simp add: allSettled_batch_def)

lemma process_window_nth:
  assumes "length results = length urls"
  shows "length (process_window ext net urls c i results) = length urls \<and>
   (\<forall>h < length urls. process_window ext net urls c i results ! h =
      (if i \<le> h \<and> h < i + c then Some (fetchUrl ext (net h) (urls ! h) 100000) else results ! h))"
proof -
  let ?batch = "slice urls i (i + c)"
  let ?rs = "allSettled_batch ext net i ?batch"
  have lrs: "length ?rs = min c (length urls - i)"
    by (simp add: length_allSettled_batch length_slice)
  show ?thesis
  proof (cases "i < length urls")
    case True
    then have bound: "i + 0 + length ?rs \<le> length results"
      using assms lrs by simp
    note fp = forEach_place_nth [OF bound, of urls]
    show ?thesis
    proof (intro conjI allI impI)
      show "length (process_window ext net urls c i results) = length urls"
        using fp assms by (simp add: process_window_def Let_def)
    next
      fix h assume h: "h < length urls"
      have hr: "h < length results" using h assms by simp
      have fph: "process_window ext net urls c i results ! h =
        (if i \<le> h \<and> h < i + length ?rs
         then Some (settled_value urls h (?rs ! (h - i))) else results ! h)"
        using conjunct2 [OF fp, rule_format, OF hr] by (simp add: process_window_def Let_def)
      show "process_window ext net urls c i results ! h =
        (if i \<le> h \<and> h < i + c then Some (fetchUrl ext (net h) (urls ! h) 100000) else results ! h)"
      proof (cases "i \<le> h \<and> h < i + c")
        case True
        then have "h - i < c" and "h - i < length urls - i" using h by arith+
        then have k: "h - i < length ?batch" by (simp add: length_slice)
        have "?rs ! (h - i) = Fulfilled (fetchUrl ext (net (i + (h - i))) (?batch ! (h - i)) 100000)"
          using k by (rule allSettled_batch_nth)
        moreover have "?batch ! (h - i) = urls ! h"
          using nth_slice [OF k] True by simp
        ultimately have "settled_value urls h (?rs ! (h - i)) = fetchUrl ext (net h) (urls ! h) 100000"
          using True by (simp add: settled_value_def)
        moreover have "h < i + length ?rs" using True h lrs by arith
        ultimately show ?thesis
          using True by (simp add: fph)
      next
        case False
        then have "\<not> (i \<le> h \<and> h < i + length ?rs)" using lrs by auto
        then show ?thesis
          using False unfolding fph by auto
      qed
    qed
  next
    case False
    then have "?rs = []" using lrs by simp
    then have "process_window ext net urls c i results = results"
      by (simp add: process_window_def Let_def)
    then show ?thesis using assms False by auto
  qed
qed

lemma fetchAllUrls_loop_result:
  assumes "0 < c"
    and "length results = length urls"
    and "\<forall>h < length urls. h < i \<longrightarrow> results ! h = Some (fetchUrl ext (net h) (urls ! h) 100000)"
  shows "fetchAllUrls_loop ext net urls c i results =
           Some (map (\<lambda>h. Some (fetchUrl ext (net h) (urls ! h) 100000)) [0..<length urls])"
  using assms
proof (induction "length urls - i" arbitrary: i results rule: less_induct)
  case less
  show ?case
  proof (cases "i < length urls")
    case False
    have "results = map (\<lambda>h. Some (fetchUrl ext (net h) (urls ! h) 100000)) [0..<length urls]"
      using less.prems False by (intro nth_equalityI) simp_all
    then show ?thesis
      using False by (subst fetchAllUrls_loop.simps) simp
  next
    case True
    let ?res = "process_window ext net urls c i results"
    note pw = process_window_nth [OF less.prems(2), of ext net c i]
    have m: "length urls - (i + c) < length urls - i"
      using True less.prems(1) by arith
    have inv: "\<forall>h < length urls. h < i + c \<longrightarrow> ?res ! h = Some (fetchUrl ext (net h) (urls ! h) 100000)"
      using pw less.prems(3) by auto
    have "fetchAllUrls_loop ext net urls c (i + c) ?res =
           Some (map (\<lambda>h. Some (fetchUrl ext (net h) (urls ! h) 100000)) [0..<length urls])"
      using less.hyps [OF m less.prems(1) _ inv] pw by simp
    then show ?thesis
      using True by (subst fetchAllUrls_loop.simps) simp
  qed
qed

lemma fetchAllUrls_closed_form:
  "0 < c \<Longrightarrow> fetchAllUrls ext net urls c =
     Some (map (\<lambda>h. Some (fetchUrl ext (net h) (urls ! h) 100000)) [0..<length urls])"
  unfolding fetchAllUrls_def
  by (rule fetchAllUrls_loop_result) simp_all

lemma url_fetchUrl: "url (fetchUrl ext fetch u maxLength) = u"
  by (simp add: fetchUrl_def fetchUrl_try_def Let_def split: sum.splits)

text \<open>
  With a window size of 0 the loop never ends on a non-empty list of URLs.
\<close>

lemma fetchAllUrls_loop_stuck:
  assumes "fetchAllUrls_loop ext net urls c i results = Some r"
  shows "\<not> (c = 0 \<and> i < length urls)"
proof (rule fetchAllUrls_loop.raw_induct
    [where P = "\<lambda>ext net urls c i results r. \<not> (c = 0 \<and> i < length urls)", OF _ assms])
  fix f ext net urls c i results y
  assume ih: "\<And>ext net urls c i results y. f ext net urls c i results = Some y \<Longrightarrow>
                \<not> (c = 0 \<and> i < length (urls :: string list))"
    and body: "(if i < length urls
                then f ext net urls c (i + c) (process_window ext net urls c i results)
                else Some results) = Some y"
  show "\<not> (c = 0 \<and> i < length urls)"
  proof
    assume z: "c = 0 \<and> i < length urls"
    with body have "f ext net urls c (i + c) (process_window ext net urls c i results) = Some y"
      by simp
    from ih [OF this] z show False by simp
  qed
qed

lemma fetchAllUrls_zero_concurrency:
  "urls \<noteq> [] \<Longrightarrow> fetchAllUrls ext net urls 0 = None"
proof (rule ccontr)
  assume ne: "urls \<noteq> []" and "fetchAllUrls ext net urls 0 \<noteq> None"
  then obtain r where "fetchAllUrls_loop ext net urls 0 0 (replicate (length urls) None) = Some r"
    by (auto simp add: fetchAllUrls_def)
  from fetchAllUrls_loop_stuck [OF this] ne show False by simp
qed

text \<open>
  Claim C1. For a window size of at least 1, \<^verbatim>\<open>fetchAllUrls\<close> returns, for every list of
  URLs (the empty list too), an array of the same length in which every slot is filled
  with a record whose \<open>url\<close> is the URL at that index, whether its fetch succeeded or
  failed.
\<close>

theorem fetchAllUrls_length_and_alignment:
  assumes "0 < concurrency"
  shows "\<exists>results. fetchAllUrls ext net urls concurrency = Some results
           \<and> length results = length urls
           \<and> (\<forall>i < length urls. \<exists>fetched. results ! i = Some fetched \<and> url fetched = urls ! i)"
  using fetchAllUrls_closed_form [OF assms, of ext net urls]
  by (simp add: url_fetchUrl)

theorem fetchAllUrls_length_and_alignment_witness:
  "(0::nat) < 5 \<and>
   (\<exists>results. fetchAllUrls example_extractors example_net [''http://a'', ''http://b''] 5 = Some results
           \<and> length results = length [''http://a'', ''http://b'']
           \<and> (\<forall>i < length [''http://a'', ''http://b'']. \<exists>fetched. results ! i = Some fetched
                  \<and> url fetched = [''http://a'', ''http://b''] ! i))"
proof -
  have h: "(0::nat) < 5" by simp
  show ?thesis
    using h fetchAllUrls_length_and_alignment [OF h, of example_extractors example_net "[''http://a'', ''http://b'']"]
    by blast
qed

lemma fetchUrl_failure:
  "fetchUrl_try ext fetch u maxLength = Inl e \<Longrightarrow>
   fetchUrl ext fetch u maxLength =
     \<lparr>url = u, title = [], content = [], success = False,
      error = Some (case e of Error m \<Rightarrow> m | NonError \<Rightarrow> ''Unknown error''), wordCount = None\<rparr>"
  by (simp add: fetchUrl_def)

lemma fetchUrl_try_retry_failure:
  "fst (fetchWithRetry fetch 3 1000) = Inl e \<Longrightarrow> fetchUrl_try ext fetch u maxLength = Inl e"
  by (simp add: fetchUrl_try_def)

text \<open>
  Claim C5. For a window size of at least 1, \<^verbatim>\<open>fetchAllUrls\<close> returns an array. Where
  the retry loop for the URL at index \<open>i\<close> throws (a network error, a status that ends
  the loop, a timeout, retries exhausted), or anything else in the \<^verbatim>\<open>try\<close> block of
  \<^verbatim>\<open>fetchUrl\<close> throws, slot \<open>i\<close> holds the failure record: that URL, empty title and
  content, \<open>success = False\<close>, and the message of the error (or \<open>Unknown error\<close>) as
  \<open>error\<close>. The record in a slot depends only on the replies to the fetch of that URL:
  under any other network that answers the fetch of URL \<open>i\<close> in the same way, whatever
  happens to the other URLs, slot \<open>i\<close> is the same.
\<close>

theorem fetchAllUrls_isolates_failures:
  assumes "0 < concurrency"
  shows "\<exists>results. fetchAllUrls ext net urls concurrency = Some results
     \<and> (\<forall>i < length urls. \<forall>e. fst (fetchWithRetry (net i) 3 1000) = Inl e \<or>
              fetchUrl_try ext (net i) (urls ! i) 100000 = Inl e \<longrightarrow>
            results ! i = Some \<lparr>url = urls ! i, title = [], content = [], success = False,
               error = Some (case e of Error m \<Rightarrow> m | NonError \<Rightarrow> ''Unknown error''),
               wordCount = None\<rparr>)
     \<and> (\<forall>net'. \<exists>results'. fetchAllUrls ext net' urls concurrency = Some results'
            \<and> length results' = length results
            \<and> (\<forall>i < length urls. net' i = net i \<longrightarrow> results' ! i = results ! i))"
proof -
  let ?r = "\<lambda>n. map (\<lambda>h. Some (fetchUrl ext (n h) (urls ! h) 100000)) [0..<length urls]"
  have cf: "\<And>n. fetchAllUrls ext n urls concurrency = Some (?r n)"
    using assms by (rule fetchAllUrls_closed_form)
  have fail: "\<forall>i < length urls. \<forall>e. fst (fetchWithRetry (net i) 3 1000) = Inl e \<or>
              fetchUrl_try ext (net i) (urls ! i) 100000 = Inl e \<longrightarrow>
            ?r net ! i = Some \<lparr>url = urls ! i, title = [], content = [], success = False,
               error = Some (case e of Error m \<Rightarrow> m | NonError \<Rightarrow> ''Unknown error''),
               wordCount = None\<rparr>"
  proof (intro allI impI)
    fix i e assume i: "i < length urls"
      and "fst (fetchWithRetry (net i) 3 1000) = Inl e \<or>
              fetchUrl_try ext (net i) (urls ! i) 100000 = Inl e"
    then have "fetchUrl_try ext (net i) (urls ! i) 100000 = Inl e"
      using fetchUrl_try_retry_failure by blast
    then show "?r net ! i = Some \<lparr>url = urls ! i, title = [], content = [], success = False,
               error = Some (case e of Error m \<Rightarrow> m | NonError \<Rightarrow> ''Unknown error''),
               wordCount = None\<rparr>"
      using i by (simp add: fetchUrl_failure)
  qed
  have indep: "\<forall>net'. \<exists>results'. fetchAllUrls ext net' urls concurrency = Some results'
            \<and> length results' = length (?r net)
            \<and> (\<forall>i < length urls. net' i = net i \<longrightarrow> results' ! i = ?r net ! i)"
  proof
    fix net'
    have "length (?r net') = length (?r net)" by simp
    moreover have "\<forall>i < length urls. net' i = net i \<longrightarrow> ?r net' ! i = ?r net ! i" by simp
    ultimately show "\<exists>results'. fetchAllUrls ext net' urls concurrency = Some results'
            \<and> length results' = length (?r net)
            \<and> (\<forall>i < length urls. net' i = net i \<longrightarrow> results' ! i = ?r net ! i)"
      using cf [of net'] by blast
  qed
  show ?thesis
    using cf [of net] fail indep by blast
qed

theorem fetchAllUrls_isolates_failures_witness:
  "(0::nat) < 5 \<and> (0::nat) < length [''http://a'', ''http://b'']
   \<and> fst (fetchWithRetry (example_net 0) 3 1000) = Inl (Error ''HTTP 404'')
   \<and> (\<exists>results. fetchAllUrls example_extractors example_net [''http://a'', ''http://b''] 5 = Some results
         \<and> results ! 0 = Some \<lparr>url = ''http://a'', title = [], content = [], success = False,
               error = Some ''HTTP 404'', wordCount = None\<rparr>)"
proof -
  have h: "(0::nat) < 5" by simp
  have l: "(0::nat) < length [''http://a'', ''http://b'']" by simp
  have f: "fst (fetchWithRetry (example_net 0) 3 1000) = Inl (Error ''HTTP 404'')"
    by code_simp
  obtain results where r: "fetchAllUrls example_extractors example_net [''http://a'', ''http://b''] 5 = Some results"
    and a: "\<forall>i < length [''http://a'', ''http://b'']. \<forall>e. fst (fetchWithRetry (example_net i) 3 1000) = Inl e \<or>
              fetchUrl_try example_extractors (example_net i) ([''http://a'', ''http://b''] ! i) 100000 = Inl e \<longrightarrow>
            results ! i = Some \<lparr>url = [''http://a'', ''http://b''] ! i, title = [], content = [], success = False,
               error = Some (case e of Error m \<Rightarrow> m | NonError \<Rightarrow> ''Unknown error''),
               wordCount = None\<rparr>"
    using fetchAllUrls_isolates_failures [OF h, of example_extractors example_net "[''http://a'', ''http://b'']"] by blast
  have "results ! 0 = Some \<lparr>url = [''http://a'', ''http://b''] ! 0, title = [], content = [], success = False,
               error = Some (case Error ''HTTP 404'' of Error m \<Rightarrow> m | NonError \<Rightarrow> ''Unknown error''),
               wordCount = None\<rparr>"
    using a l f by blast
  then show ?thesis using h f r by simp
qed

lemma split_ws_Nil: "split_ws [] = [[]]"
  by (simp add: split_ws.simps)

lemma split_four: "split_ws ''one two three four'' = [''one'', ''two'', ''three'', ''four'']"
  by (simp add: split_ws.simps is_space_def)

text \<open>
  The word count is taken from the text as the extractor returned it: it is the same for
  every \<open>maxLength\<close>, while the content is cut to \<open>maxLength\<close> characters plus the
  marker.
\<close>

lemma fetchUrl_wordCount_independent_of_maxLength:
  assumes "success (fetchUrl ext fetch u maxLength)"
  shows "\<exists>response html text.
           fst (fetchWithRetry fetch 3 1000) = Inr response
         \<and> body response = Inr html
         \<and> extractContentWithReadability ext html u = Inr text
         \<and> content (fetchUrl ext fetch u maxLength) =
              (if length text > maxLength then take maxLength text @ truncation_marker else text)
         \<and> (\<forall>m. wordCount (fetchUrl ext fetch u m) = Some (length (split_ws text)))"
  using assms
  by (auto simp add: fetchUrl_def fetchUrl_try_def Let_def split: sum.splits)

lemma fetchUrl_wordCount_independent_of_maxLength_example:
  "success (fetchUrl example_extractors example_page ''http://b'' 7)
   \<and> content (fetchUrl example_extractors example_page ''http://b'' 7) = ''one two'' @ truncation_marker
   \<and> wordCount (fetchUrl example_extractors example_page ''http://b'' 7) = Some 4
   \<and> wordCount (fetchUrl example_extractors example_page ''http://b'' 100000) = Some 4"
proof -
  have r: "fst (fetchWithRetry example_page 3 1000) = Inr \<lparr>status = 200, body = Inr ''one two three four''\<rparr>"
    by (simp add: fetchWithRetry_def fetchWithRetry_loop.simps [of _ 3 1000 0] try_catch_def try_block_def
          ok_def example_page_def)
  have s: "success (fetchUrl example_extractors example_page ''http://b'' 7)"
    by (simp add: fetchUrl_def fetchUrl_try_def r example_extractors_def Let_def)
  from fetchUrl_wordCount_independent_of_maxLength [OF s] obtain response html extracted where
      f: "fst (fetchWithRetry example_page 3 1000) = Inr response"
      and b: "body response = Inr html"
      and e: "extractContentWithReadability example_extractors html ''http://b'' = Inr extracted"
      and c: "content (fetchUrl example_extractors example_page ''http://b'' 7) =
              (if length extracted > 7 then take 7 extracted @ truncation_marker else extracted)"
      and w: "\<forall>m. wordCount (fetchUrl example_extractors example_page ''http://b'' m) = Some (length (split_ws extracted))"
    by blast
  from f r have "response = \<lparr>status = 200, body = Inr ''one two three four''\<rparr>"
    by simp
  with b have "html = ''one two three four''" by simp
  with e have t: "extracted = ''one two three four''"
    by (simp add: example_extractors_def)
  show ?thesis
    using s c w by (simp add: t split_four)
qed

text \<open>
  \<^verbatim>\<open>text.split(/\s+/)\<close> against the token count. For a text that begins with a character
  that is not whitespace, the number of pieces is the number of tokens, plus one when
  the text ends in whitespace; the empty text has no token and one piece. So the two
  agree on every non-empty text without whitespace at either end, which is what
  \<^verbatim>\<open>trim()\<close> leaves, and differ on the empty text.
\<close>

lemma count_tokens_inside_run:
  "\<forall>c \<in> set xs. \<not> is_space c \<Longrightarrow> count_tokens True (xs @ ys) = count_tokens True ys"
  by (induction xs) simp_all

lemma count_tokens_run:
  "\<forall>c \<in> set xs. \<not> is_space c \<Longrightarrow> xs \<noteq> [] \<Longrightarrow>
   count_tokens False (xs @ ys) = 1 + count_tokens True ys"
  by (cases xs) (simp_all add: count_tokens_inside_run)

lemma count_tokens_gap:
  "\<forall>c \<in> set xs. is_space c \<Longrightarrow> xs \<noteq> [] \<Longrightarrow> count_tokens b (xs @ ys) = count_tokens False ys"
proof (induction xs arbitrary: b)
  case Nil
  then show ?case by simp
next
  case (Cons x xs)
  then show ?case by (cases xs) simp_all
qed

lemma split_ws_step:
  assumes "dropWhile (\<lambda>c. \<not> is_space c) s \<noteq> []"
  shows "split_ws s = takeWhile (\<lambda>c. \<not> is_space c) s
            # split_ws (dropWhile is_space (dropWhile (\<lambda>c. \<not> is_space c) s))"
proof -
  have "split_ws s =
     (let piece = takeWhile (\<lambda>c. \<not> is_space c) s;
          rest = dropWhile (\<lambda>c. \<not> is_space c) s
      in if rest = [] then [piece] else piece # split_ws (dropWhile is_space rest))"
    by (rule split_ws.simps)
  also have "\<dots> = takeWhile (\<lambda>c. \<not> is_space c) s
            # split_ws (dropWhile is_space (dropWhile (\<lambda>c. \<not> is_space c) s))"
    unfolding Let_def using assms by (rule if_not_P)
  finally show ?thesis .
qed

lemma split_ws_last:
  assumes "dropWhile (\<lambda>c. \<not> is_space c) s = []"
  shows "split_ws s = [takeWhile (\<lambda>c. \<not> is_space c) s]"
proof -
  have "split_ws s =
     (let piece = takeWhile (\<lambda>c. \<not> is_space c) s;
          rest = dropWhile (\<lambda>c. \<not> is_space c) s
      in if rest = [] then [piece] else piece # split_ws (dropWhile is_space rest))"
    by (rule split_ws.simps)
  also have "\<dots> = [takeWhile (\<lambda>c. \<not> is_space c) s]"
    unfolding Let_def using assms by (rule if_P)
  finally show ?thesis .
qed

lemma length_split_ws:
  "s = [] \<or> \<not> is_space (hd s) \<Longrightarrow>
   length (split_ws s) =
     (if s = [] then 1 else count_tokens False s + (if is_space (last s) then 1 else 0))"
proof (induction s rule: split_ws.induct)
  case (1 s)
  let ?piece = "takeWhile (\<lambda>c. \<not> is_space c) s"
  let ?rest = "dropWhile (\<lambda>c. \<not> is_space c) s"
  let ?gap = "takeWhile is_space ?rest"
  let ?s' = "dropWhile is_space ?rest"
  have pn: "\<forall>c \<in> set ?piece. \<not> is_space c" by (auto dest: set_takeWhileD)
  show ?case
  proof (cases "s = []")
    case True
    then show ?thesis by (simp add: split_ws.simps)
  next
    case False
    with "1.prems" have hd: "\<not> is_space (hd s)" by simp
    with False have pne: "?piece \<noteq> []" by (cases s) simp_all
    show ?thesis
    proof (cases "?rest = []")
      case True
      have "?piece @ ?rest = s" by (rule takeWhile_dropWhile_id)
      then have ps: "?piece = s" unfolding True append_Nil2 .
      have len: "length (split_ws s) = 1"
        unfolding split_ws_last [OF True] by simp
      have "count_tokens False (?piece @ []) = 1 + count_tokens True []"
        using pn pne by (rule count_tokens_run)
      then have ct: "count_tokens False s = 1" unfolding append_Nil2 ps by simp
      have "\<forall>c \<in> set s. \<not> is_space c" using pn unfolding ps .
      moreover have "last s \<in> set s" using False by (rule last_in_set)
      ultimately have "\<not> is_space (last s)" by blast
      then show ?thesis using False len ct by simp
    next
      case rne: False
      then have hr: "is_space (hd ?rest)" using hd_dropWhile [of "\<lambda>c. \<not> is_space c" s] by simp
      have gne: "?gap \<noteq> []" using hr rne unfolding takeWhile_eq_Nil_iff by blast
      have gs: "\<forall>c \<in> set ?gap. is_space c" by (auto dest: set_takeWhileD)
      have dec: "?piece @ ?gap @ ?s' = s" by (simp only: takeWhile_dropWhile_id)
      have s'hd: "?s' = [] \<or> \<not> is_space (hd ?s')"
        using hd_dropWhile [of is_space ?rest] by blast
      have ih: "length (split_ws ?s') =
          (if ?s' = [] then 1 else count_tokens False ?s' + (if is_space (last ?s') then 1 else 0))"
        using "1.IH" [OF refl refl rne s'hd] .
      have len: "length (split_ws s) = 1 + length (split_ws ?s')"
        unfolding split_ws_step [OF rne] by simp
      have c1: "count_tokens False (?piece @ ?gap @ ?s') = 1 + count_tokens True (?gap @ ?s')"
        using pn pne by (rule count_tokens_run)
      have c2: "count_tokens True (?gap @ ?s') = count_tokens False ?s'"
        using gs gne by (rule count_tokens_gap)
      have ct: "count_tokens False s = 1 + count_tokens False ?s'"
        using c1 unfolding dec c2 .
      show ?thesis
      proof (cases "?s' = []")
        case True
        have pg: "?piece @ ?gap = s" using dec unfolding True append_Nil2 .
        have "last (?piece @ ?gap) = last ?gap" using gne by (rule last_appendR)
        then have lg: "last s = last ?gap" unfolding pg .
        have "last ?gap \<in> set ?gap" using gne by (rule last_in_set)
        then have sp: "is_space (last s)" using gs unfolding lg by blast
        have l1: "length (split_ws ?s') = 1" using ih unfolding True by simp
        have c0: "count_tokens False ?s' = 0" by (simp only: True count_tokens.simps)
        have "length (split_ws s) = count_tokens False s + 1"
          using len l1 ct c0 by linarith
        then show ?thesis by (simp only: False sp if_False if_True)
      next
        case s'ne: False
        have "last ((?piece @ ?gap) @ ?s') = last ?s'" using s'ne by (rule last_appendR)
        then have ls: "last s = last ?s'" unfolding append_assoc dec .
        have l1: "length (split_ws ?s') =
            count_tokens False ?s' + (if is_space (last ?s') then 1 else 0)"
          using ih by (simp only: s'ne if_False)
        have "length (split_ws s) =
            count_tokens False s + (if is_space (last ?s') then 1 else 0)"
          using len l1 ct by linarith
        then show ?thesis by (simp only: False ls if_False)
      qed
    qed
  qed
qed

lemma split_ws_counts_tokens:
  assumes "s \<noteq> []" and "\<not> is_space (hd s)" and "\<not> is_space (last s)"
  shows "length (split_ws s) = whitespace_token_count s"
  using length_split_ws [of s] assms by (simp add: whitespace_token_count_def)

lemma example_empty_page_fetched:
  "fetchUrl example_extractors example_empty_page ''http://a'' 100000 =
     \<lparr>url = ''http://a'', title = ''Title'', content = [], success = True, error = None,
      wordCount = Some 1\<rparr>"
proof -
  have r: "fst (fetchWithRetry example_empty_page 3 1000) = Inr \<lparr>status = 200, body = Inr []\<rparr>"
    by (simp add: fetchWithRetry_def fetchWithRetry_loop.simps [of _ 3 1000 0] try_catch_def try_block_def
          ok_def example_empty_page_def)
  show ?thesis
    by (simp add: fetchUrl_def fetchUrl_try_def r example_extractors_def Let_def split_ws_Nil)
qed

lemma fetchUrl_wordCount_counts_tokens:
  assumes "success (fetchUrl ext fetch u maxLength)"
  shows "\<exists>response html text.
           fst (fetchWithRetry fetch 3 1000) = Inr response
         \<and> body response = Inr html
         \<and> extractContentWithReadability ext html u = Inr text
         \<and> (text \<noteq> [] \<and> \<not> is_space (hd text) \<and> \<not> is_space (last text) \<longrightarrow>
               (\<forall>m. wordCount (fetchUrl ext fetch u m) = Some (whitespace_token_count text)))
         \<and> (text = [] \<longrightarrow>
               (\<forall>m. wordCount (fetchUrl ext fetch u m) = Some 1) \<and> whitespace_token_count text = 0)"
proof -
  from fetchUrl_wordCount_independent_of_maxLength [OF assms] obtain response html extracted where
      f: "fst (fetchWithRetry fetch 3 1000) = Inr response"
      and b: "body response = Inr html"
      and e: "extractContentWithReadability ext html u = Inr extracted"
      and w: "\<forall>m. wordCount (fetchUrl ext fetch u m) = Some (length (split_ws extracted))"
    by blast
  have t: "extracted \<noteq> [] \<and> \<not> is_space (hd extracted) \<and> \<not> is_space (last extracted) \<longrightarrow>
               (\<forall>m. wordCount (fetchUrl ext fetch u m) = Some (whitespace_token_count extracted))"
    using w split_ws_counts_tokens [of extracted] by simp
  have n: "extracted = [] \<longrightarrow>
               (\<forall>m. wordCount (fetchUrl ext fetch u m) = Some 1) \<and> whitespace_token_count extracted = 0"
    using w by (auto simp add: split_ws_Nil whitespace_token_count_def)
  show ?thesis using f b e t n by blast
qed

text \<open>
  Claim C6. The claim is that the word count of a successful fetch is the number of
  whitespace-separated tokens of the extracted text, taken before truncation. The count
  is taken before truncation, and it is the number of tokens for every non-empty trimmed
  text, but not for the empty text: a page whose extracted text is empty has no token
  and is recorded with \<open>wordCount = 1\<close>, because \<^verbatim>\<open>"".split(/\s+/)\<close> is the array of
  one empty string.
\<close>

theorem fetchUrl_wordCount_of_empty_page:
  "fst (fetchWithRetry example_empty_page 3 1000) = Inr \<lparr>status = 200, body = Inr []\<rparr>
   \<and> extractContentWithReadability example_extractors [] ''http://a'' = Inr []
   \<and> whitespace_token_count [] = 0
   \<and> success (fetchUrl example_extractors example_empty_page ''http://a'' 100000)
   \<and> content (fetchUrl example_extractors example_empty_page ''http://a'' 100000) = []
   \<and> wordCount (fetchUrl example_extractors example_empty_page ''http://a'' 100000) = Some 1"
proof -
  have "fst (fetchWithRetry example_empty_page 3 1000) = Inr \<lparr>status = 200, body = Inr []\<rparr>"
    by (simp add: fetchWithRetry_def fetchWithRetry_loop.simps [of _ 3 1000 0] try_catch_def try_block_def
          ok_def example_empty_page_def)
  moreover have "extractContentWithReadability example_extractors [] ''http://a'' = Inr []"
    by (simp add: example_extractors_def)
  moreover have "whitespace_token_count [] = 0"
    by (simp add: whitespace_token_count_def)
  ultimately show ?thesis
    by (simp add: example_empty_page_fetched)
qed

section \<open>Properties of the report\<close>

lemma formatResponse_loop_sections:
  "formatResponse_loop srs fcs m i response =
     response @ concat (map (\<lambda>j. result_section j (srs ! j) (array_get fcs j) m) [i..<length srs])"
proof (induction "length srs - i" arbitrary: i response)
  case 0
  then show ?case
    by (simp add: formatResponse_loop.simps [of srs fcs m i])
next
  case (Suc d)
  then have lt: "i < length srs" and d: "d = length srs - (i + 1)" by simp_all
  have upt: "[i..<length srs] = i # [i + 1..<length srs]"
    using lt by (simp add: upt_conv_Cons)
  show ?case
    using lt Suc.hyps(1) [OF d]
    by (simp add: formatResponse_loop.simps [of srs fcs m i] upt)
qed

lemma formatResponse_sections:
  "formatResponse L q srs fcs m t =
     report_header L q srs fcs t
     @ concat (map (\<lambda>j. result_section j (srs ! j) (array_get fcs j) m) [0..<length srs])"
  by (simp add: formatResponse_def formatResponse_loop_sections)

lemma startsWith_append: "startsWith (t @ b) t"
  by (induction t) simp_all

lemma str_includes_append: "str_includes (a @ t @ b) t"
proof (induction a)
  case Nil
  show ?case
    by (cases "t @ b") (use startsWith_append [of t b] in auto)
next
  case (Cons c a)
  then show ?case by simp
qed

lemma concat_map_upt_split:
  "i < n \<Longrightarrow> concat (map f [0..<n]) = concat (map f [0..<i]) @ f i @ concat (map f [Suc i..<n])"
proof -
  assume "i < n"
  then have "[0..<n] = [0..<i] @ i # [Suc i..<n]"
    by (metis le0 upt_conv_Cons upt_add_eq_append le_add_diff_inverse less_imp_le_nat)
  then show ?thesis by simp
qed

lemma str_includes_trans_append:
  "str_includes (a @ (p @ t @ r) @ b) t"
  using str_includes_append [of "a @ p" t "r @ b"] by simp

lemma formatResponse_includes_section_part:
  assumes "i < length srs"
    and "result_section i (srs ! i) (array_get fcs i) m = p @ t @ r"
  shows "str_includes (formatResponse L q srs fcs m ty) t"
proof -
  let ?f = "\<lambda>j. result_section j (srs ! j) (array_get fcs j) m"
  have "formatResponse L q srs fcs m ty =
      (report_header L q srs fcs ty @ concat (map ?f [0..<i])) @ (p @ t @ r)
       @ concat (map ?f [Suc i..<length srs])"
    using concat_map_upt_split [OF assms(1), of ?f] assms(2)
    by (simp add: formatResponse_sections)
  then show ?thesis
    using str_includes_trans_append
      [of "report_header L q srs fcs ty @ concat (map ?f [0..<i])" p t r
          "concat (map ?f [Suc i..<length srs])"]
    by simp
qed

text \<open>
  Claim C7. For a result whose page was fetched successfully, the report shows the
  content as follows. Content longer than \<open>maxContentPerPage\<close> appears as exactly its
  first \<open>maxContentPerPage\<close> characters followed by the truncation marker; non-empty
  content that is not longer appears unchanged. In both cases the section of the result,
  and so the report, contains the page-content block with that text.
\<close>

theorem formatResponse_truncates_content:
  assumes "i < length srs" and "array_get fcs i = Some f" and "success f"
  shows "(length (content f) > m \<longrightarrow>
            result_section i (srs ! i) (array_get fcs i) m =
              section_head i (srs ! i) @ ''### Full Page Content:\<newline>\<newline>''
              @ take m (content f) @ ''\<newline>\<newline>[Content truncated...]'' @ ''\<newline>\<newline>''
              @ ''---\<newline>\<newline>''
          \<and> length (take m (content f)) = m
          \<and> str_includes (formatResponse L q srs fcs m ty)
                (''### Full Page Content:\<newline>\<newline>'' @ take m (content f)
                 @ ''\<newline>\<newline>[Content truncated...]'' @ ''\<newline>\<newline>''))
       \<and> (content f \<noteq> [] \<and> length (content f) \<le> m \<longrightarrow>
            result_section i (srs ! i) (array_get fcs i) m =
              section_head i (srs ! i) @ ''### Full Page Content:\<newline>\<newline>''
              @ content f @ ''\<newline>\<newline>'' @ ''---\<newline>\<newline>''
          \<and> str_includes (formatResponse L q srs fcs m ty)
                (''### Full Page Content:\<newline>\<newline>'' @ content f @ ''\<newline>\<newline>''))"
proof (intro conjI impI)
  assume long: "length (content f) > m"
  then have ne: "content f \<noteq> []" by auto
  show sec: "result_section i (srs ! i) (array_get fcs i) m =
              section_head i (srs ! i) @ ''### Full Page Content:\<newline>\<newline>''
              @ take m (content f) @ ''\<newline>\<newline>[Content truncated...]'' @ ''\<newline>\<newline>''
              @ ''---\<newline>\<newline>''"
    using assms long ne
    by (simp add: result_section_def section_body_def shown_content_def)
  show "length (take m (content f)) = m"
    using long by simp
  have "result_section i (srs ! i) (array_get fcs i) m =
      section_head i (srs ! i)
      @ (''### Full Page Content:\<newline>\<newline>'' @ take m (content f)
         @ ''\<newline>\<newline>[Content truncated...]'' @ ''\<newline>\<newline>'')
      @ ''---\<newline>\<newline>''"
    unfolding sec by simp
  then show "str_includes (formatResponse L q srs fcs m ty)
                (''### Full Page Content:\<newline>\<newline>'' @ take m (content f)
                 @ ''\<newline>\<newline>[Content truncated...]'' @ ''\<newline>\<newline>'')"
    by (rule formatResponse_includes_section_part [OF assms(1)])
next
  assume short: "content f \<noteq> [] \<and> length (content f) \<le> m"
  show sec: "result_section i (srs ! i) (array_get fcs i) m =
              section_head i (srs ! i) @ ''### Full Page Content:\<newline>\<newline>''
              @ content f @ ''\<newline>\<newline>'' @ ''---\<newline>\<newline>''"
    using assms short
    by (simp add: result_section_def section_body_def shown_content_def)
  have "result_section i (srs ! i) (array_get fcs i) m =
      section_head i (srs ! i)
      @ (''### Full Page Content:\<newline>\<newline>'' @ content f @ ''\<newline>\<newline>'')
      @ ''---\<newline>\<newline>''"
    unfolding sec by simp
  then show "str_includes (formatResponse L q srs fcs m ty)
                (''### Full Page Content:\<newline>\<newline>'' @ content f @ ''\<newline>\<newline>'')"
    by (rule formatResponse_includes_section_part [OF assms(1)])
qed

theorem formatResponse_truncates_content_witness:
  "(0::nat) < length [example_result]
   \<and> array_get [Some example_long_page] 0 = Some example_long_page
   \<and> success example_long_page
   \<and> length (content example_long_page) > 4
   \<and> result_section 0 ([example_result] ! 0) (array_get [Some example_long_page] 0) 4 =
        section_head 0 ([example_result] ! 0) @ ''### Full Page Content:\<newline>\<newline>''
        @ ''abcd'' @ ''\<newline>\<newline>[Content truncated...]'' @ ''\<newline>\<newline>'' @ ''---\<newline>\<newline>''
   \<and> str_includes (formatResponse show_nat ''q'' [example_result] [Some example_long_page] 4 Web)
        (''### Full Page Content:\<newline>\<newline>'' @ ''abcd''
         @ ''\<newline>\<newline>[Content truncated...]'' @ ''\<newline>\<newline>'')
   \<and> content example_long_page \<noteq> [] \<and> length (content example_long_page) \<le> 5000
   \<and> result_section 0 ([example_result] ! 0) (array_get [Some example_long_page] 0) 5000 =
        section_head 0 ([example_result] ! 0) @ ''### Full Page Content:\<newline>\<newline>''
        @ ''abcdefghij'' @ ''\<newline>\<newline>'' @ ''---\<newline>\<newline>''"
proof -
  have h1: "(0::nat) < length [example_result]" by simp
  have h2: "array_get [Some example_long_page] 0 = Some example_long_page"
    by (simp add: array_get_def)
  have h3: "success example_long_page" by (simp add: example_long_page_def)
  have h4: "length (content example_long_page) > 4" by (simp add: example_long_page_def)
  have h5: "content example_long_page \<noteq> [] \<and> length (content example_long_page) \<le> 5000"
    by (simp add: example_long_page_def)
  have t: "take 4 (content example_long_page) = ''abcd''" by (simp add: example_long_page_def)
  have c: "content example_long_page = ''abcdefghij''" by (simp add: example_long_page_def)
  have long: "result_section 0 ([example_result] ! 0) (array_get [Some example_long_page] 0) 4 =
        section_head 0 ([example_result] ! 0) @ ''### Full Page Content:\<newline>\<newline>''
        @ ''abcd'' @ ''\<newline>\<newline>[Content truncated...]'' @ ''\<newline>\<newline>'' @ ''---\<newline>\<newline>''
   \<and> str_includes (formatResponse show_nat ''q'' [example_result] [Some example_long_page] 4 Web)
        (''### Full Page Content:\<newline>\<newline>'' @ ''abcd''
         @ ''\<newline>\<newline>[Content truncated...]'' @ ''\<newline>\<newline>'')"
    using formatResponse_truncates_content [OF h1 h2 h3, of 4 show_nat "''q''" Web] h4 t
    by simp
  have short: "result_section 0 ([example_result] ! 0) (array_get [Some example_long_page] 0) 5000 =
        section_head 0 ([example_result] ! 0) @ ''### Full Page Content:\<newline>\<newline>''
        @ ''abcdefghij'' @ ''\<newline>\<newline>'' @ ''---\<newline>\<newline>''"
    using formatResponse_truncates_content [OF h1 h2 h3, of 5000 show_nat "''q''" Web] h5 c
    by simp
  show ?thesis
    using h1 h2 h3 h4 h5 long short by blast
qed

text \<open>
  A rejection whose error has an empty message is retried, and \<^verbatim>\<open>fetchUrl\<close> records the
  empty message as the error; the report then shows no failure notice for that result.
\<close>

lemma nameless_rejection_retried:
  "fst (fetchWithRetry (\<lambda>k. Rejected (Error [])) 3 1000) = Inl (Error [])"
  by code_simp

lemma nameless_failure:
  "fetchUrl example_extractors (\<lambda>k. Rejected (Error [])) ''http://a'' 100000 =
     \<lparr>url = ''http://a'', title = [], content = [], success = False, error = Some [],
      wordCount = None\<rparr>"
  by (simp add: fetchUrl_def fetchUrl_try_def nameless_rejection_retried)

lemma nameless_failure_has_no_notice:
  "\<not> str_includes
         (formatResponse show_nat ''q'' [example_result]
            [Some (fetchUrl example_extractors (\<lambda>k. Rejected (Error [])) ''http://a'' 100000)] 5000 Web)
         ''Could not fetch content''"
  unfolding nameless_failure by code_simp

lemma successCount_all_failed:
  "\<forall>f. Some f \<in> set fcs \<longrightarrow> \<not> success f \<Longrightarrow> successCount fcs = 0"
  by (auto simp add: successCount_def filter_empty_conv split: option.splits)

lemma array_get_in_set: "array_get xs i = Some v \<Longrightarrow> Some v \<in> set xs"
  by (metis array_get_def nth_mem option.distinct(1))

lemma show_nat_0: "show_nat 0 = ''0''"
  by (simp add: show_nat.simps)

lemma fetchUrl_success_no_error:
  "success (fetchUrl ext fetch u maxLength) \<Longrightarrow> error (fetchUrl ext fetch u maxLength) = None"
  by (auto simp add: fetchUrl_def fetchUrl_try_def Let_def split: sum.splits)

text \<open>
  What reaches \<^verbatim>\<open>formatResponse\<close>: the array that \<^verbatim>\<open>fetchAllUrls\<close> returns holds, at
  every index, the outcome of \<^verbatim>\<open>fetchUrl\<close> for the URL at that index; a failed outcome
  is the failure record with an error string, a successful one has no error string.
\<close>

lemma fetchAllUrls_Some:
  assumes "fetchAllUrls ext net urls c = Some fcs"
  shows "fcs = map (\<lambda>h. Some (fetchUrl ext (net h) (urls ! h) 100000)) [0..<length urls]"
proof (cases "0 < c")
  case True
  then show ?thesis
    using assms fetchAllUrls_closed_form [of c ext net urls] by simp
next
  case False
  then have c: "c = 0" by simp
  have "urls = []"
    using assms fetchAllUrls_zero_concurrency [of urls ext net] c by auto
  then show ?thesis
    using assms by (simp add: fetchAllUrls_def fetchAllUrls_loop.simps)
qed

lemma fetchAllUrls_outcome:
  assumes "fetchAllUrls ext net urls c = Some fcs" and "array_get fcs i = Some f"
  shows "i < length urls \<and> f = fetchUrl ext (net i) (urls ! i) 100000"
proof -
  note fcs = fetchAllUrls_Some [OF assms(1)]
  have i: "i < length fcs"
    using assms(2) by (simp add: array_get_def split: if_splits)
  then have "i < length urls" by (simp add: fcs)
  moreover from this have "fcs ! i = Some (fetchUrl ext (net i) (urls ! i) 100000)"
    by (simp add: fcs)
  ultimately show ?thesis
    using assms(2) i by (simp add: array_get_def)
qed

lemma fetchUrl_failed_record:
  assumes "\<not> success (fetchUrl ext fetch u maxLength)"
  shows "\<exists>msg. fetchUrl ext fetch u maxLength =
           \<lparr>url = u, title = [], content = [], success = False, error = Some msg, wordCount = None\<rparr>"
  using assms
  by (auto simp add: fetchUrl_def fetchUrl_try_def Let_def split: sum.splits)

lemma formatResponse_at:
  assumes "i < length srs"
  shows "formatResponse L q srs fcs m ty =
           report_header L q srs fcs ty
           @ concat (map (\<lambda>j. result_section j (srs ! j) (array_get fcs j) m) [0..<i])
           @ result_section i (srs ! i) (array_get fcs i) m
           @ concat (map (\<lambda>j. result_section j (srs ! j) (array_get fcs j) m) [Suc i..<length srs])"
  using concat_map_upt_split [OF assms, of "\<lambda>j. result_section j (srs ! j) (array_get fcs j) m"]
  by (simp add: formatResponse_sections)

lemma upt_0_1: "[0..<1] = [0::nat]"
  by (simp add: upt_rec)

lemma example_missing_fetched:
  "fetchUrl example_extractors example_missing ''http://a'' 100000 = example_failed"
proof -
  have "fst (fetchWithRetry example_missing 3 1000) = Inl (Error ''HTTP 404'')"
    by code_simp
  then show ?thesis
    by (simp add: fetchUrl_def fetchUrl_try_def example_failed_def)
qed

text \<open>
  Claim C8. Let \<^verbatim>\<open>fetchAllUrls\<close> return the array for the URLs of the search results,
  with every outcome failed and no recorded error message empty (the runtime's errors
  carry a message). Then the header reports 0 pages fetched successfully, and for every
  result the outcome is the failure record with its error message and the section of
  that result in the report is the lines with number, title, URL and date, the failure
  notice with that message, the search snippet of the result, and the separator.
\<close>

theorem formatResponse_all_failed:
  assumes "fetchAllUrls ext net urls c = Some fcs"
    and "length urls = length srs"
    and "\<forall>f. Some f \<in> set fcs \<longrightarrow> \<not> success f"
    and "\<forall>f. Some f \<in> set fcs \<longrightarrow> error f \<noteq> Some []"
  shows "successCount fcs = 0
       \<and> report_header L q srs fcs ty =
           ''# Deep Search Results for: '' @ [CHR 0x22] @ q @ [CHR 0x22] @ ''\<newline>\<newline>''
           @ ''**Search Type:** '' @ searchType_text ty @ ''\<newline>''
           @ ''**Results:** '' @ show_nat (length srs) @ '' found, ''
             @ ''0'' @ '' pages fetched successfully\<newline>''
           @ ''**Total Content:** ~'' @ L (totalWords fcs) @ '' words\<newline>\<newline>''
           @ ''---\<newline>\<newline>''
       \<and> (\<forall>i < length srs. \<exists>e. e \<noteq> []
             \<and> array_get fcs i = Some \<lparr>url = urls ! i, title = [], content = [], success = False,
                                       error = Some e, wordCount = None\<rparr>
             \<and> formatResponse L q srs fcs m ty =
                 report_header L q srs fcs ty
                 @ concat (map (\<lambda>j. result_section j (srs ! j) (array_get fcs j) m) [0..<i])
                 @ (section_head i (srs ! i)
                    @ ''*Could not fetch content: '' @ e @ ''*\<newline>\<newline>''
                    @ ''**Search Snippet:** '' @ snippet (srs ! i) @ ''\<newline>\<newline>''
                    @ ''---\<newline>\<newline>'')
                 @ concat (map (\<lambda>j. result_section j (srs ! j) (array_get fcs j) m)
                             [Suc i..<length srs]))"
proof (intro conjI allI impI)
  show sc: "successCount fcs = 0"
    using assms(3) by (rule successCount_all_failed)
  show "report_header L q srs fcs ty =
           ''# Deep Search Results for: '' @ [CHR 0x22] @ q @ [CHR 0x22] @ ''\<newline>\<newline>''
           @ ''**Search Type:** '' @ searchType_text ty @ ''\<newline>''
           @ ''**Results:** '' @ show_nat (length srs) @ '' found, ''
             @ ''0'' @ '' pages fetched successfully\<newline>''
           @ ''**Total Content:** ~'' @ L (totalWords fcs) @ '' words\<newline>\<newline>''
           @ ''---\<newline>\<newline>''"
    by (simp add: report_header_def sc show_nat_0)
next
  fix i assume i: "i < length srs"
  let ?f = "fetchUrl ext (net i) (urls ! i) 100000"
  note fcs = fetchAllUrls_Some [OF assms(1)]
  have iu: "i < length urls" using i assms(2) by simp
  then have g: "array_get fcs i = Some ?f"
    by (simp add: fcs array_get_def)
  then have mem: "Some ?f \<in> set fcs" by (rule array_get_in_set)
  then have ns: "\<not> success ?f" using assms(3) by blast
  then obtain e where rec: "?f = \<lparr>url = urls ! i, title = [], content = [], success = False,
                                   error = Some e, wordCount = None\<rparr>"
    using fetchUrl_failed_record by blast
  have "error ?f \<noteq> Some []" using mem assms(4) by blast
  then have e: "e \<noteq> []" by (simp add: rec)
  have sec: "result_section i (srs ! i) (array_get fcs i) m =
               section_head i (srs ! i)
               @ ''*Could not fetch content: '' @ e @ ''*\<newline>\<newline>''
               @ ''**Search Snippet:** '' @ snippet (srs ! i) @ ''\<newline>\<newline>''
               @ ''---\<newline>\<newline>''"
    using e by (simp add: g rec result_section_def section_body_def truthy_def)
  have "formatResponse L q srs fcs m ty =
                 report_header L q srs fcs ty
                 @ concat (map (\<lambda>j. result_section j (srs ! j) (array_get fcs j) m) [0..<i])
                 @ (section_head i (srs ! i)
                    @ ''*Could not fetch content: '' @ e @ ''*\<newline>\<newline>''
                    @ ''**Search Snippet:** '' @ snippet (srs ! i) @ ''\<newline>\<newline>''
                    @ ''---\<newline>\<newline>'')
                 @ concat (map (\<lambda>j. result_section j (srs ! j) (array_get fcs j) m)
                             [Suc i..<length srs])"
    using formatResponse_at [OF i, of L q fcs m ty] unfolding sec .
  with e g rec show "\<exists>e. e \<noteq> []
             \<and> array_get fcs i = Some \<lparr>url = urls ! i, title = [], content = [], success = False,
                                       error = Some e, wordCount = None\<rparr>
             \<and> formatResponse L q srs fcs m ty =
                 report_header L q srs fcs ty
                 @ concat (map (\<lambda>j. result_section j (srs ! j) (array_get fcs j) m) [0..<i])
                 @ (section_head i (srs ! i)
                    @ ''*Could not fetch content: '' @ e @ ''*\<newline>\<newline>''
                    @ ''**Search Snippet:** '' @ snippet (srs ! i) @ ''\<newline>\<newline>''
                    @ ''---\<newline>\<newline>'')
                 @ concat (map (\<lambda>j. result_section j (srs ! j) (array_get fcs j) m)
                             [Suc i..<length srs])"
    by (intro exI [of _ e] conjI) simp_all
qed

theorem formatResponse_all_failed_witness:
  "fetchAllUrls example_extractors (\<lambda>g. example_missing) [''http://a''] 5 = Some [Some example_failed]
   \<and> length [''http://a''] = length [example_result]
   \<and> \<not> success example_failed
   \<and> error example_failed \<noteq> Some []
   \<and> successCount [Some example_failed] = 0
   \<and> formatResponse show_nat ''q'' [example_result] [Some example_failed] 5000 Web =
       report_header show_nat ''q'' [example_result] [Some example_failed] Web
       @ ''## 1. Cats\<newline>**URL:** http://a\<newline>\<newline>''
       @ ''*Could not fetch content: HTTP 404*\<newline>\<newline>''
       @ ''**Search Snippet:** About cats\<newline>\<newline>''
       @ ''---\<newline>\<newline>''"
proof -
  have p: "fetchAllUrls example_extractors (\<lambda>g. example_missing) [''http://a''] 5 =
             Some [Some example_failed]"
    using fetchAllUrls_closed_form [of 5 example_extractors "\<lambda>g. example_missing" "[''http://a'']"]
    by (simp add: upt_0_1 example_missing_fetched)
  have l: "length [''http://a''] = length [example_result]" by simp
  have ns: "\<not> success example_failed" and ne: "error example_failed \<noteq> Some []"
    by (simp_all add: example_failed_def)
  have a3: "\<forall>f. Some f \<in> set [Some example_failed] \<longrightarrow> \<not> success f" using ns by simp
  have a4: "\<forall>f. Some f \<in> set [Some example_failed] \<longrightarrow> error f \<noteq> Some []" using ne by simp
  note c = formatResponse_all_failed [OF p l a3 a4, of show_nat "''q''" Web 5000]
  from c have sc: "successCount [Some example_failed] = 0" by blast
  from c obtain e where
      g: "array_get [Some example_failed] 0 =
            Some \<lparr>url = [''http://a''] ! 0, title = [], content = [], success = False,
                  error = Some e, wordCount = None\<rparr>"
    and r: "formatResponse show_nat ''q'' [example_result] [Some example_failed] 5000 Web =
                 report_header show_nat ''q'' [example_result] [Some example_failed] Web
                 @ concat (map (\<lambda>j. result_section j ([example_result] ! j)
                                   (array_get [Some example_failed] j) 5000) [0..<0])
                 @ (section_head 0 ([example_result] ! 0)
                    @ ''*Could not fetch content: '' @ e @ ''*\<newline>\<newline>''
                    @ ''**Search Snippet:** '' @ snippet ([example_result] ! 0) @ ''\<newline>\<newline>''
                    @ ''---\<newline>\<newline>'')
                 @ concat (map (\<lambda>j. result_section j ([example_result] ! j)
                                   (array_get [Some example_failed] j) 5000)
                             [Suc 0..<length [example_result]])"
    by auto
  from g have e: "e = ''HTTP 404''"
    by (simp add: array_get_def example_failed_def)
  have h: "section_head 0 example_result = ''## 1. Cats\<newline>**URL:** http://a\<newline>\<newline>''"
    by (simp add: section_head_def example_result_def truthy_def show_nat.simps)
  have sn: "snippet example_result = ''About cats''" by (simp add: example_result_def)
  have "formatResponse show_nat ''q'' [example_result] [Some example_failed] 5000 Web =
       report_header show_nat ''q'' [example_result] [Some example_failed] Web
       @ ''## 1. Cats\<newline>**URL:** http://a\<newline>\<newline>''
       @ ''*Could not fetch content: HTTP 404*\<newline>\<newline>''
       @ ''**Search Snippet:** About cats\<newline>\<newline>''
       @ ''---\<newline>\<newline>''"
    using r by (simp add: e h sn)
  then show ?thesis using p l ns ne sc by blast
qed

text \<open>
  Claim C10. For every outcome with \<open>success = True\<close> and empty content that
  \<^verbatim>\<open>fetchUrl\<close> creates, and so for every such outcome in an array that \<^verbatim>\<open>fetchAllUrls\<close>
  returns, the section of that result in the report is only the lines with number,
  title, URL and date, and the separator: no page-content block, no failure notice, no
  snippet.
\<close>

theorem formatResponse_empty_success:
  assumes "i < length srs" and "array_get fcs i = Some f" and "success f" and "content f = []"
    and "(\<exists>ext fetch u maxLength. f = fetchUrl ext fetch u maxLength)
         \<or> (\<exists>ext net urls c. fetchAllUrls ext net urls c = Some fcs)"
  shows "section_body (srs ! i) (array_get fcs i) m = []
       \<and> result_section i (srs ! i) (array_get fcs i) m =
           section_head i (srs ! i) @ ''---\<newline>\<newline>''
       \<and> formatResponse L q srs fcs m ty =
           report_header L q srs fcs ty
           @ concat (map (\<lambda>j. result_section j (srs ! j) (array_get fcs j) m) [0..<i])
           @ (section_head i (srs ! i) @ ''---\<newline>\<newline>'')
           @ concat (map (\<lambda>j. result_section j (srs ! j) (array_get fcs j) m) [Suc i..<length srs])"
proof -
  from assms(5) obtain ext fetch u maxLength where f: "f = fetchUrl ext fetch u maxLength"
    using fetchAllUrls_outcome [OF _ assms(2)] by blast
  have "error f = None"
    using assms(3) fetchUrl_success_no_error [of ext fetch u maxLength] by (simp add: f)
  then have body: "section_body (srs ! i) (array_get fcs i) m = []"
    using assms(2,3,4) by (simp add: section_body_def truthy_def)
  then have sec: "result_section i (srs ! i) (array_get fcs i) m =
           section_head i (srs ! i) @ ''---\<newline>\<newline>''"
    by (simp add: result_section_def)
  show ?thesis
    using body sec formatResponse_at [OF assms(1), of L q fcs m ty] by simp
qed

theorem formatResponse_empty_success_witness:
  "fetchAllUrls example_extractors (\<lambda>g. example_empty_page) [''http://a''] 5 =
     Some [Some (fetchUrl example_extractors example_empty_page ''http://a'' 100000)]
   \<and> (0::nat) < length [example_result]
   \<and> success (fetchUrl example_extractors example_empty_page ''http://a'' 100000)
   \<and> content (fetchUrl example_extractors example_empty_page ''http://a'' 100000) = []
   \<and> formatResponse show_nat ''q'' [example_result]
        [Some (fetchUrl example_extractors example_empty_page ''http://a'' 100000)] 5000 Web =
      report_header show_nat ''q'' [example_result]
        [Some (fetchUrl example_extractors example_empty_page ''http://a'' 100000)] Web
      @ ''## 1. Cats\<newline>**URL:** http://a\<newline>\<newline>---\<newline>\<newline>''"
proof -
  let ?f = "fetchUrl example_extractors example_empty_page ''http://a'' 100000"
  have p: "fetchAllUrls example_extractors (\<lambda>g. example_empty_page) [''http://a''] 5 = Some [Some ?f]"
    using fetchAllUrls_closed_form [of 5 example_extractors "\<lambda>g. example_empty_page" "[''http://a'']"]
    by (simp add: upt_0_1)
  have l: "(0::nat) < length [example_result]" by simp
  have g: "array_get [Some ?f] 0 = Some ?f" by (simp add: array_get_def)
  have s: "success ?f" and c: "content ?f = []"
    by (simp_all add: example_empty_page_fetched)
  have o: "(\<exists>ext fetch u maxLength. ?f = fetchUrl ext fetch u maxLength)
         \<or> (\<exists>ext net urls c. fetchAllUrls ext net urls c = Some [Some ?f])"
    using p by blast
  have h: "section_head 0 example_result = ''## 1. Cats\<newline>**URL:** http://a\<newline>\<newline>''"
    by (simp add: section_head_def example_result_def truthy_def show_nat.simps)
  have "formatResponse show_nat ''q'' [example_result] [Some ?f] 5000 Web =
      report_header show_nat ''q'' [example_result] [Some ?f] Web
      @ ''## 1. Cats\<newline>**URL:** http://a\<newline>\<newline>---\<newline>\<newline>''"
    using formatResponse_empty_success [OF l g s c o, of 5000 show_nat "''q''" Web] by (simp add: h)
  then show ?thesis using p l s c by blast
qed

end
